theory Spec2Isabelle
  imports
    Complex_Main
    "HOL-Library.Multiset"
    "HOL-Library.Char_ord"
    "HOL-Library.List_Lexorder"
    "HOL-Library.Product_Lexorder"
begin

section \<open>RiskMetric bronze layer: the synthetic transaction generator\<close>

text \<open>
  The development embeds \<^verbatim>\<open>generator.py\<close>. Conventions of the embedding:

  \<^item> Python floats are read as real numbers, and \<^verbatim>\<open>round(x, n)\<close> as exact rounding
    to \<open>n\<close> decimals, ties to the even neighbour.
  \<^item> A \<^verbatim>\<open>datetime\<close> is the number of seconds since 2025-01-01 00:00:00, the
    origin every timestamp of the generator is computed from.
  \<^item> The module-level catalogs and counts are arguments of the functions that read
    them; the constants of the module are defined below under their own names.
  \<^item> Random calls take their result from an explicit draw: every function that
    calls a random source has an argument that supplies, for each iteration of its
    loop, the values the calls of that iteration return. The predicates
    \<open>valid_\<dots>\<close> state the range each call is documented to return.
    \<^verbatim>\<open>uuid.uuid4()\<close> is not seeded by the module and has a supply of its own.
  \<^item> A Python exception is a value \<open>Inl e\<close>.
\<close>

subsection \<open>Exceptions and loops that may raise\<close>

datatype error = IndexError | ValueError | KeyError

text \<open>A \<^verbatim>\<open>for\<close> loop that appends one value per element and stops at the first exception.\<close>

primrec mapE :: "('a \<Rightarrow> error + 'b) \<Rightarrow> 'a list \<Rightarrow> error + 'b list" where
  "mapE f [] = Inr []"
| "mapE f (x # xs) =
     (case f x of
        Inl e \<Rightarrow> Inl e
      | Inr y \<Rightarrow> (case mapE f xs of Inl e \<Rightarrow> Inl e | Inr ys \<Rightarrow> Inr (y # ys)))"

text \<open>\<^verbatim>\<open>range(n)\<close>: empty when \<open>n\<close> is not positive.\<close>

definition range_py :: "int \<Rightarrow> nat list" where
  "range_py n = [0..<nat n]"

subsection \<open>Numbers, dates and strings\<close>

definition round_half_even :: "real \<Rightarrow> int" where
  "round_half_even x =
     (let f = \<lfloor>x\<rfloor>; d = x - of_int f
      in if d < 1 / 2 then f
         else if 1 / 2 < d then f + 1
         else if even f then f else f + 1)"

text \<open>\<^verbatim>\<open>round(x, nd)\<close>\<close>

definition py_round :: "real \<Rightarrow> nat \<Rightarrow> real" where
  "py_round x nd = of_int (round_half_even (x * 10 ^ nd)) / 10 ^ nd"

type_synonym datetime = int

text \<open>\<^verbatim>\<open>datetime(2025, 1, 1)\<close> and \<^verbatim>\<open>datetime(2025, 12, 31)\<close>: 2025 has 365 days, so
  31 December is 364 days after 1 January.\<close>

definition start_date :: datetime where
  "start_date = 0"

definition end_date :: datetime where
  "end_date = 364 * 86400"

text \<open>\<^verbatim>\<open>int((end_date - start_date).total_seconds())\<close>\<close>

definition delta_seconds :: int where
  "delta_seconds = end_date - start_date"

text \<open>\<^verbatim>\<open>int(timedelta(days=364).total_seconds())\<close>\<close>

definition days364_seconds :: int where
  "days364_seconds = 364 * 86400"

text \<open>The decimal digits of a number, and \<^verbatim>\<open>f"{i:06d}"\<close>: at least six digits,
  padded with zeros on the left.\<close>

definition digit_char :: "nat \<Rightarrow> char" where
  "digit_char d = ''0123456789'' ! d"

fun digits10 :: "nat \<Rightarrow> string" where
  "digits10 n = (if n < 10 then [digit_char n] else digits10 (n div 10) @ [digit_char (n mod 10)])"

declare digits10.simps [simp del]

definition fmt_06d :: "nat \<Rightarrow> string" where
  "fmt_06d i = replicate (6 - length (digits10 i)) (CHR ''0'') @ digits10 i"

text \<open>The value of a string of decimal digits (used to read an identifier back).\<close>

definition digits_value :: "string \<Rightarrow> nat" where
  "digits_value s = foldl (\<lambda>acc c. 10 * acc + (of_char c - 48)) 0 s"

subsection \<open>Catalogs and configuration\<close>

record city_entry =
  c_city :: string
  c_country :: string
  c_lat :: real
  c_lon :: real

definition mk_city :: "string \<Rightarrow> string \<Rightarrow> real \<Rightarrow> real \<Rightarrow> city_entry" where
  "mk_city n c la lo = \<lparr>c_city = n, c_country = c, c_lat = la, c_lon = lo\<rparr>"

text \<open>The name of the fifth city has the code point 0xE3 (a with tilde) as its second letter.\<close>

definition CITIES :: "city_entry list" where
  "CITIES =
    [mk_city ''New York'' ''US'' 40.7128 (- 74.0060),
     mk_city ''London'' ''GB'' 51.5074 (- 0.1278),
     mk_city ''Tokyo'' ''JP'' 35.6762 139.6503,
     mk_city ''Sydney'' ''AU'' (- 33.8688) 151.2093,
     mk_city (''S'' @ [CHR 0xE3] @ ''o Paulo'') ''BR'' (- 23.5505) (- 46.6333),
     mk_city ''Mumbai'' ''IN'' 19.0760 72.8777,
     mk_city ''Dubai'' ''AE'' 25.2048 55.2708,
     mk_city ''Singapore'' ''SG'' 1.3521 103.8198,
     mk_city ''Toronto'' ''CA'' 43.6532 (- 79.3832),
     mk_city ''Berlin'' ''DE'' 52.5200 13.4050,
     mk_city ''Paris'' ''FR'' 48.8566 2.3522,
     mk_city ''Lagos'' ''NG'' 6.5244 3.3792,
     mk_city ''Mexico City'' ''MX'' 19.4326 (- 99.1332),
     mk_city ''Seoul'' ''KR'' 37.5665 126.9780,
     mk_city ''Chicago'' ''US'' 41.8781 (- 87.6298),
     mk_city ''Los Angeles'' ''US'' 34.0522 (- 118.2437),
     mk_city ''Shanghai'' ''CN'' 31.2304 121.4737,
     mk_city ''Moscow'' ''RU'' 55.7558 37.6173,
     mk_city ''Cairo'' ''EG'' 30.0444 31.2357,
     mk_city ''Istanbul'' ''TR'' 41.0082 28.9784]"

definition DISTANT_PAIRS :: "(nat \<times> nat) list" where
  "DISTANT_PAIRS = [(0, 1), (0, 2), (1, 3), (2, 4), (5, 6), (7, 3), (0, 15), (1, 16)]"

definition MERCHANT_CATEGORIES :: "string list" where
  "MERCHANT_CATEGORIES =
    [''Grocery'', ''Restaurant'', ''Gas Station'', ''Online Shopping'',
     ''Electronics'', ''Travel'', ''Entertainment'', ''Healthcare'',
     ''Utilities'', ''Clothing'', ''Hotel'', ''ATM Withdrawal'',
     ''Wire Transfer'', ''Subscription'', ''Insurance'']"

text \<open>The literal list the drift injector chooses its category from.\<close>

definition DRIFT_CATEGORIES :: "string list" where
  "DRIFT_CATEGORIES = [''Wire Transfer'', ''Electronics'', ''Travel'', ''Online Shopping'']"

record config =
  cities :: "city_entry list"
  distant_pairs :: "(nat \<times> nat) list"
  merchant_categories :: "string list"
  num_users :: int
  num_transactions :: int
  fraud_impossible_travel :: int
  fraud_velocity_spike_users :: int
  fraud_behavioral_drift :: int

text \<open>The configuration the module is shipped with.\<close>

definition module_config :: config where
  "module_config =
    \<lparr>cities = CITIES, distant_pairs = DISTANT_PAIRS,
     merchant_categories = MERCHANT_CATEGORIES,
     num_users = 5000, num_transactions = 1050000,
     fraud_impossible_travel = 2500, fraud_velocity_spike_users = 500,
     fraud_behavioral_drift = 3000\<rparr>"

subsection \<open>Random calls\<close>

text \<open>\<^verbatim>\<open>random.choice(seq)\<close> with drawn index \<open>k\<close>: an empty sequence raises.\<close>

definition choice :: "'a list \<Rightarrow> nat \<Rightarrow> error + 'a" where
  "choice seq k = (if seq = [] then Inl IndexError else Inr (seq ! k))"

text \<open>\<^verbatim>\<open>seq[i]\<close> for a non-negative index.\<close>

definition index :: "'a list \<Rightarrow> nat \<Rightarrow> error + 'a" where
  "index seq i = (if i < length seq then Inr (seq ! i) else Inl IndexError)"

text \<open>The documented ranges: \<^verbatim>\<open>random.uniform(a, b)\<close> returns a value between \<open>a\<close> and
  \<open>b\<close>, \<^verbatim>\<open>random.randint(a, b)\<close> an integer between \<open>a\<close> and \<open>b\<close> with both ends
  included, \<^verbatim>\<open>random.choice(seq)\<close> an element at an index below the length.\<close>

definition in_uniform :: "real \<Rightarrow> real \<Rightarrow> real \<Rightarrow> bool" where
  "in_uniform a b x \<longleftrightarrow> a \<le> x \<and> x \<le> b"

definition in_randint :: "int \<Rightarrow> int \<Rightarrow> int \<Rightarrow> bool" where
  "in_randint a b x \<longleftrightarrow> a \<le> x \<and> x \<le> b"

definition in_choice :: "'a list \<Rightarrow> nat \<Rightarrow> bool" where
  "in_choice seq k \<longleftrightarrow> k < length seq"

text \<open>A sampled row of a table with \<open>n_rows\<close> rows has an index below \<open>n_rows\<close>.\<close>

definition in_sample :: "nat \<Rightarrow> nat \<Rightarrow> bool" where
  "in_sample n_rows k \<longleftrightarrow> k < n_rows"

subsection \<open>User profiles\<close>

record user =
  user_id :: string
  home_city :: string
  home_country :: string
  home_lat :: real
  home_lon :: real
  avg_amount :: real
  std_amount :: real

record profile_draw =
  pd_home :: nat
  pd_avg :: real
  pd_frac :: real

definition valid_profile_draw :: "city_entry list \<Rightarrow> profile_draw \<Rightarrow> bool" where
  "valid_profile_draw cs d \<longleftrightarrow>
     in_choice cs (pd_home d) \<and> in_uniform 20 500 (pd_avg d) \<and> in_uniform 0.15 0.40 (pd_frac d)"

text \<open>The body of the loop of \<^verbatim>\<open>generate_user_profiles\<close>.\<close>

definition profile_row :: "city_entry list \<Rightarrow> nat \<Rightarrow> profile_draw \<Rightarrow> error + user" where
  "profile_row cs i d =
     (case choice cs (pd_home d) of
        Inl e \<Rightarrow> Inl e
      | Inr home \<Rightarrow>
          (let avg_spend = py_round (pd_avg d) 2;
               std_spend = py_round (avg_spend * pd_frac d) 2
           in Inr \<lparr>user_id = ''USR-'' @ fmt_06d i,
                   home_city = c_city home,
                   home_country = c_country home,
                   home_lat = c_lat home,
                   home_lon = c_lon home,
                   avg_amount = avg_spend,
                   std_amount = std_spend\<rparr>))"

definition generate_user_profiles ::
  "city_entry list \<Rightarrow> int \<Rightarrow> (nat \<Rightarrow> profile_draw) \<Rightarrow> error + user list" where
  "generate_user_profiles cs n_users draws =
     mapE (\<lambda>i. profile_row cs i (draws i)) (range_py n_users)"

subsection \<open>Transaction records\<close>

record txn =
  transaction_id :: string
  txn_user_id :: string
  timestamp :: datetime
  amount :: real
  merchant_name :: string
  merchant_category :: string
  city :: string
  country :: string
  latitude :: real
  longitude :: real
  is_fraud :: bool
  fraud_type :: "string option"

subsection \<open>Sampling rows of the profile table\<close>

text \<open>\<^verbatim>\<open>users.sample(1).iloc[0]\<close>: sampling from an empty table raises.\<close>

definition sample_one :: "user list \<Rightarrow> nat \<Rightarrow> error + user" where
  "sample_one df k = (if df = [] then Inl ValueError else Inr (df ! k))"

text \<open>\<^verbatim>\<open>users.sample(n=n, replace=True)\<close>: \<open>n\<close> rows, row \<open>i\<close> at the drawn index
  \<open>ks i\<close>. A negative \<open>n\<close> raises, and so does a positive \<open>n\<close> on an empty table.\<close>

definition sample_replace :: "user list \<Rightarrow> int \<Rightarrow> (nat \<Rightarrow> nat) \<Rightarrow> error + user list" where
  "sample_replace df n ks =
     (if n < 0 then Inl ValueError
      else if df = [] \<and> 0 < n then Inl ValueError
      else Inr (map (\<lambda>i. df ! ks i) (range_py n)))"

text \<open>\<^verbatim>\<open>users.sample(n=n, replace=False)\<close>: the first \<open>n\<close> rows of a drawn permutation
  of the table. A negative \<open>n\<close> raises, and so does an \<open>n\<close> above the number of rows.\<close>

definition sample_no_replace :: "user list \<Rightarrow> int \<Rightarrow> nat list \<Rightarrow> error + user list" where
  "sample_no_replace df n perm =
     (if n < 0 then Inl ValueError
      else if int (length df) < n then Inl ValueError
      else Inr (map (\<lambda>i. df ! i) (take (nat n) perm)))"

definition is_permutation :: "nat \<Rightarrow> nat list \<Rightarrow> bool" where
  "is_permutation n perm \<longleftrightarrow> mset perm = mset [0..<n]"

text \<open>\<^verbatim>\<open>np.random.normal(loc, scale)\<close>: a negative scale raises; the value is the draw.\<close>

definition normal :: "real \<Rightarrow> real \<Rightarrow> real \<Rightarrow> error + real" where
  "normal loc scale x = (if scale < 0 then Inl ValueError else Inr x)"

subsection \<open>Legitimate transactions\<close>

record legit_draw =
  ld_user :: nat
  ld_jlat :: real
  ld_jlon :: real
  ld_normal :: real
  ld_secs :: int
  ld_company :: string
  ld_category :: nat

definition valid_legit_draw :: "string list \<Rightarrow> nat \<Rightarrow> legit_draw \<Rightarrow> bool" where
  "valid_legit_draw cats n_rows d \<longleftrightarrow>
     in_sample n_rows (ld_user d) \<and>
     in_uniform (- 0.5) 0.5 (ld_jlat d) \<and> in_uniform (- 0.5) 0.5 (ld_jlon d) \<and>
     in_randint 0 delta_seconds (ld_secs d) \<and>
     in_choice cats (ld_category d)"

text \<open>The body of the loop of \<^verbatim>\<open>generate_legitimate_transactions\<close>.\<close>

definition legit_row :: "string list \<Rightarrow> user list \<Rightarrow> legit_draw \<Rightarrow> string \<Rightarrow> error + txn" where
  "legit_row cats df d uuid =
     (case sample_one df (ld_user d) of
        Inl e \<Rightarrow> Inl e
      | Inr usr \<Rightarrow>
          (let jitter_lat = home_lat usr + ld_jlat d;
               jitter_lon = home_lon usr + ld_jlon d
           in case normal (avg_amount usr) (std_amount usr) (ld_normal d) of
                Inl e \<Rightarrow> Inl e
              | Inr x \<Rightarrow>
                  (let amt = max 0.50 (py_round x 2);
                       ts = start_date + ld_secs d
                   in case choice cats (ld_category d) of
                        Inl e \<Rightarrow> Inl e
                      | Inr cat \<Rightarrow>
                          Inr \<lparr>transaction_id = uuid,
                               txn_user_id = user_id usr,
                               timestamp = ts,
                               amount = amt,
                               merchant_name = ld_company d,
                               merchant_category = cat,
                               city = home_city usr,
                               country = home_country usr,
                               latitude = py_round jitter_lat 6,
                               longitude = py_round jitter_lon 6,
                               is_fraud = False,
                               fraud_type = None\<rparr>)))"

definition generate_legitimate_transactions ::
  "string list \<Rightarrow> user list \<Rightarrow> int \<Rightarrow> (nat \<Rightarrow> legit_draw) \<Rightarrow> (nat \<Rightarrow> string) \<Rightarrow> error + txn list" where
  "generate_legitimate_transactions cats df n_txns draws uuids =
     mapE (\<lambda>i. legit_row cats df (draws i) (uuids i)) (range_py n_txns)"

subsection \<open>Impossible travel\<close>

record travel_rec_draw =
  tr_amount :: real
  tr_company :: string
  tr_category :: nat
  tr_jlat :: real
  tr_jlon :: real

record travel_draw =
  td_pair :: nat
  td_secs :: int
  td_gap :: int
  td_rec :: "nat \<Rightarrow> travel_rec_draw"

definition valid_travel_rec_draw :: "string list \<Rightarrow> travel_rec_draw \<Rightarrow> bool" where
  "valid_travel_rec_draw cats r \<longleftrightarrow>
     in_uniform 10 2000 (tr_amount r) \<and> in_choice cats (tr_category r) \<and>
     in_uniform (- 0.01) 0.01 (tr_jlat r) \<and> in_uniform (- 0.01) 0.01 (tr_jlon r)"

definition valid_travel_draw :: "(nat \<times> nat) list \<Rightarrow> string list \<Rightarrow> travel_draw \<Rightarrow> bool" where
  "valid_travel_draw pairs cats d \<longleftrightarrow>
     in_choice pairs (td_pair d) \<and>
     in_randint 0 days364_seconds (td_secs d) \<and>
     in_randint 2 10 (td_gap d) \<and>
     valid_travel_rec_draw cats (td_rec d 0) \<and> valid_travel_rec_draw cats (td_rec d 1)"

text \<open>The body of the inner loop over \<^verbatim>\<open>enumerate([city_a, city_b])\<close>;
  \<^verbatim>\<open>timedelta(minutes=m)\<close> is \<open>60 * m\<close> seconds.\<close>

definition travel_record ::
  "string list \<Rightarrow> user \<Rightarrow> datetime \<Rightarrow> int \<Rightarrow> nat \<Rightarrow> city_entry \<Rightarrow> travel_rec_draw \<Rightarrow> string
     \<Rightarrow> error + txn" where
  "travel_record cats usr base_ts gap_minutes idx cty r uuid =
     (let ts = base_ts + 60 * (int idx * gap_minutes)
      in case choice cats (tr_category r) of
           Inl e \<Rightarrow> Inl e
         | Inr cat \<Rightarrow>
             Inr \<lparr>transaction_id = uuid,
                  txn_user_id = user_id usr,
                  timestamp = ts,
                  amount = py_round (tr_amount r) 2,
                  merchant_name = tr_company r,
                  merchant_category = cat,
                  city = c_city cty,
                  country = c_country cty,
                  latitude = py_round (c_lat cty + tr_jlat r) 6,
                  longitude = py_round (c_lon cty + tr_jlon r) 6,
                  is_fraud = True,
                  fraud_type = Some ''impossible_travel''\<rparr>)"

text \<open>The body of the outer loop: one trial, for one sampled user.\<close>

definition travel_trial ::
  "city_entry list \<Rightarrow> (nat \<times> nat) list \<Rightarrow> string list \<Rightarrow> user \<Rightarrow> travel_draw \<Rightarrow> (nat \<Rightarrow> string)
     \<Rightarrow> error + txn list" where
  "travel_trial cs pairs cats usr d uuids =
     (case choice pairs (td_pair d) of
        Inl e \<Rightarrow> Inl e
      | Inr pair \<Rightarrow>
          (case index cs (fst pair) of
             Inl e \<Rightarrow> Inl e
           | Inr city_a \<Rightarrow>
               (case index cs (snd pair) of
                  Inl e \<Rightarrow> Inl e
                | Inr city_b \<Rightarrow>
                    (let base_ts = start_date + td_secs d;
                         gap_minutes = td_gap d
                     in mapE (\<lambda>(idx, cty).
                               travel_record cats usr base_ts gap_minutes idx cty (td_rec d idx) (uuids idx))
                          (enumerate 0 [city_a, city_b])))))"

definition inject_impossible_travel ::
  "city_entry list \<Rightarrow> (nat \<times> nat) list \<Rightarrow> string list \<Rightarrow> user list \<Rightarrow> int \<Rightarrow> (nat \<Rightarrow> nat)
     \<Rightarrow> (nat \<Rightarrow> travel_draw) \<Rightarrow> (nat \<Rightarrow> nat \<Rightarrow> string) \<Rightarrow> error + txn list" where
  "inject_impossible_travel cs pairs cats df n_pairs ks draws uuids =
     (case sample_replace df (min n_pairs (int (length df))) ks of
        Inl e \<Rightarrow> Inl e
      | Inr sampled_users \<Rightarrow>
          (case mapE (\<lambda>(i, usr). travel_trial cs pairs cats usr (draws i) (uuids i))
                  (enumerate 0 sampled_users) of
             Inl e \<Rightarrow> Inl e
           | Inr groups \<Rightarrow> Inr (concat groups)))"

subsection \<open>Velocity spikes\<close>

record micro_draw =
  md_secs :: int
  md_amount :: real
  md_company :: string
  md_jlat :: real
  md_jlon :: real

record burst_draw =
  bd_secs :: int
  bd_n_micro :: int
  bd_city :: nat
  bd_micro :: "nat \<Rightarrow> micro_draw"

definition valid_micro_draw :: "micro_draw \<Rightarrow> bool" where
  "valid_micro_draw m \<longleftrightarrow>
     in_randint 0 55 (md_secs m) \<and> in_uniform 0.01 2.00 (md_amount m) \<and>
     in_uniform (- 0.01) 0.01 (md_jlat m) \<and> in_uniform (- 0.01) 0.01 (md_jlon m)"

definition valid_burst_draw :: "city_entry list \<Rightarrow> burst_draw \<Rightarrow> bool" where
  "valid_burst_draw cs d \<longleftrightarrow>
     in_randint 0 days364_seconds (bd_secs d) \<and>
     in_randint 10 20 (bd_n_micro d) \<and>
     in_choice cs (bd_city d) \<and>
     (\<forall>i \<in> set (range_py (bd_n_micro d)). valid_micro_draw (bd_micro d i))"

text \<open>The body of the inner loop over \<^verbatim>\<open>range(n_micro)\<close>.\<close>

definition micro_record :: "user \<Rightarrow> datetime \<Rightarrow> city_entry \<Rightarrow> micro_draw \<Rightarrow> string \<Rightarrow> txn" where
  "micro_record usr base_ts city_info m uuid =
     (let ts = base_ts + md_secs m
      in \<lparr>transaction_id = uuid,
          txn_user_id = user_id usr,
          timestamp = ts,
          amount = py_round (md_amount m) 2,
          merchant_name = md_company m,
          merchant_category = ''Online Shopping'',
          city = c_city city_info,
          country = c_country city_info,
          latitude = py_round (c_lat city_info + md_jlat m) 6,
          longitude = py_round (c_lon city_info + md_jlon m) 6,
          is_fraud = True,
          fraud_type = Some ''velocity_spike''\<rparr>)"

text \<open>The body of the outer loop: the burst of one sampled user.\<close>

definition velocity_burst ::
  "city_entry list \<Rightarrow> user \<Rightarrow> burst_draw \<Rightarrow> (nat \<Rightarrow> string) \<Rightarrow> error + txn list" where
  "velocity_burst cs usr d uuids =
     (let base_ts = start_date + bd_secs d;
          n_micro = bd_n_micro d
      in case choice cs (bd_city d) of
           Inl e \<Rightarrow> Inl e
         | Inr city_info \<Rightarrow>
             Inr (map (\<lambda>i. micro_record usr base_ts city_info (bd_micro d i) (uuids i))
                    (range_py n_micro)))"

definition inject_velocity_spikes ::
  "city_entry list \<Rightarrow> user list \<Rightarrow> int \<Rightarrow> nat list \<Rightarrow> (nat \<Rightarrow> burst_draw) \<Rightarrow> (nat \<Rightarrow> nat \<Rightarrow> string)
     \<Rightarrow> error + txn list" where
  "inject_velocity_spikes cs df n_users perm draws uuids =
     (case sample_no_replace df (min n_users (int (length df))) perm of
        Inl e \<Rightarrow> Inl e
      | Inr sampled_users \<Rightarrow>
          (case mapE (\<lambda>(i, usr). velocity_burst cs usr (draws i) (uuids i))
                  (enumerate 0 sampled_users) of
             Inl e \<Rightarrow> Inl e
           | Inr bursts \<Rightarrow> Inr (concat bursts)))"

subsection \<open>Behavioral drift\<close>

record drift_draw =
  dd_sigma :: real
  dd_secs :: int
  dd_company :: string
  dd_category :: nat
  dd_jlat :: real
  dd_jlon :: real

definition valid_drift_draw :: "drift_draw \<Rightarrow> bool" where
  "valid_drift_draw d \<longleftrightarrow>
     in_uniform 3.5 8.0 (dd_sigma d) \<and>
     in_randint 0 days364_seconds (dd_secs d) \<and>
     in_choice DRIFT_CATEGORIES (dd_category d) \<and>
     in_uniform (- 0.3) 0.3 (dd_jlat d) \<and> in_uniform (- 0.3) 0.3 (dd_jlon d)"

text \<open>The body of the loop of \<^verbatim>\<open>inject_behavioral_drift\<close>.\<close>

definition drift_row :: "user \<Rightarrow> drift_draw \<Rightarrow> string \<Rightarrow> error + txn" where
  "drift_row usr d uuid =
     (let sigma_multiplier = dd_sigma d;
          drift_amount = py_round (avg_amount usr + sigma_multiplier * std_amount usr) 2;
          drift_amount = max drift_amount 500.0;
          ts = start_date + dd_secs d
      in case choice DRIFT_CATEGORIES (dd_category d) of
           Inl e \<Rightarrow> Inl e
         | Inr cat \<Rightarrow>
             Inr \<lparr>transaction_id = uuid,
                  txn_user_id = user_id usr,
                  timestamp = ts,
                  amount = drift_amount,
                  merchant_name = dd_company d,
                  merchant_category = cat,
                  city = home_city usr,
                  country = home_country usr,
                  latitude = py_round (home_lat usr + dd_jlat d) 6,
                  longitude = py_round (home_lon usr + dd_jlon d) 6,
                  is_fraud = True,
                  fraud_type = Some ''behavioral_drift''\<rparr>)"

definition inject_behavioral_drift ::
  "user list \<Rightarrow> int \<Rightarrow> (nat \<Rightarrow> nat) \<Rightarrow> (nat \<Rightarrow> drift_draw) \<Rightarrow> (nat \<Rightarrow> string) \<Rightarrow> error + txn list" where
  "inject_behavioral_drift df n_txns ks draws uuids =
     (case sample_replace df (min n_txns (int (length df))) ks of
        Inl e \<Rightarrow> Inl e
      | Inr sampled_users \<Rightarrow>
          mapE (\<lambda>(i, usr). drift_row usr (draws i) (uuids i)) (enumerate 0 sampled_users))"

subsection \<open>Assembly\<close>

text \<open>\<^verbatim>\<open>random.shuffle(xs)\<close>: the list rearranged by the drawn permutation of its
  positions.\<close>

definition shuffle :: "'a list \<Rightarrow> nat list \<Rightarrow> 'a list" where
  "shuffle xs perm = map (\<lambda>i. xs ! i) perm"

text \<open>\<^verbatim>\<open>df.sort_values(["user_id", "timestamp"])\<close>: ascending by the pair of keys;
  a sort on several columns keeps rows with equal keys in the order they had.\<close>

definition sort_key_of :: "txn \<Rightarrow> string \<times> datetime" where
  "sort_key_of t = (txn_user_id t, timestamp t)"

definition sort_values :: "txn list \<Rightarrow> txn list" where
  "sort_values df = sort_key sort_key_of df"

text \<open>The shuffle and the sort of \<^verbatim>\<open>main\<close>. A frame built from an empty list has no
  columns, and reading its \<^verbatim>\<open>timestamp\<close> column raises.\<close>

definition assemble :: "txn list \<Rightarrow> nat list \<Rightarrow> error + txn list" where
  "assemble all_txns perm =
     (let shuffled = shuffle all_txns perm
      in if shuffled = [] then Inl KeyError else Inr (sort_values shuffled))"

record draws =
  dr_profiles :: "nat \<Rightarrow> profile_draw"
  dr_legit :: "nat \<Rightarrow> legit_draw"
  dr_travel_sample :: "nat \<Rightarrow> nat"
  dr_travel :: "nat \<Rightarrow> travel_draw"
  dr_velocity_sample :: "nat list"
  dr_velocity :: "nat \<Rightarrow> burst_draw"
  dr_drift_sample :: "nat \<Rightarrow> nat"
  dr_drift :: "nat \<Rightarrow> drift_draw"
  dr_shuffle :: "nat list"

record uuids =
  uu_legit :: "nat \<Rightarrow> string"
  uu_travel :: "nat \<Rightarrow> nat \<Rightarrow> string"
  uu_velocity :: "nat \<Rightarrow> nat \<Rightarrow> string"
  uu_drift :: "nat \<Rightarrow> string"

text \<open>\<^verbatim>\<open>main\<close>, up to the sorted frame that is written out; the four streams are kept
  beside it as the summary printed at the end reads them.\<close>

definition generate_streams ::
  "config \<Rightarrow> draws \<Rightarrow> uuids \<Rightarrow> error + (user list \<times> txn list \<times> txn list \<times> txn list \<times> txn list)" where
  "generate_streams cfg dr uu =
     (case generate_user_profiles (cities cfg) (num_users cfg) (dr_profiles dr) of
        Inl e \<Rightarrow> Inl e
      | Inr users \<Rightarrow>
     (case generate_legitimate_transactions (merchant_categories cfg) users (num_transactions cfg)
             (dr_legit dr) (uu_legit uu) of
        Inl e \<Rightarrow> Inl e
      | Inr legit \<Rightarrow>
     (case inject_impossible_travel (cities cfg) (distant_pairs cfg) (merchant_categories cfg) users
             (fraud_impossible_travel cfg) (dr_travel_sample dr) (dr_travel dr) (uu_travel uu) of
        Inl e \<Rightarrow> Inl e
      | Inr impossible \<Rightarrow>
     (case inject_velocity_spikes (cities cfg) users (fraud_velocity_spike_users cfg)
             (dr_velocity_sample dr) (dr_velocity dr) (uu_velocity uu) of
        Inl e \<Rightarrow> Inl e
      | Inr velocity \<Rightarrow>
     (case inject_behavioral_drift users (fraud_behavioral_drift cfg)
             (dr_drift_sample dr) (dr_drift dr) (uu_drift uu) of
        Inl e \<Rightarrow> Inl e
      | Inr drift \<Rightarrow> Inr (users, legit, impossible, velocity, drift))))))"

definition main_with :: "config \<Rightarrow> draws \<Rightarrow> uuids \<Rightarrow> error + txn list" where
  "main_with cfg dr uu =
     (case generate_streams cfg dr uu of
        Inl e \<Rightarrow> Inl e
      | Inr (users, legit, impossible, velocity, drift) \<Rightarrow>
          assemble (legit @ impossible @ velocity @ drift) (dr_shuffle dr))"

definition main :: "draws \<Rightarrow> uuids \<Rightarrow> error + txn list" where
  "main dr uu = main_with module_config dr uu"

subsection \<open>Properties of records and of runs\<close>

text \<open>The three archetype tags a fraudulent record can carry.\<close>

definition recognized_archetypes :: "string option set" where
  "recognized_archetypes =
     {Some ''impossible_travel'', Some ''velocity_spike'', Some ''behavioral_drift''}"

text \<open>A configuration with non-empty catalogs, distant pairs that index the city
  catalog, and positive population and target counts.\<close>

definition valid_config :: "config \<Rightarrow> bool" where
  "valid_config cfg \<longleftrightarrow>
     cities cfg \<noteq> [] \<and> distant_pairs cfg \<noteq> [] \<and> merchant_categories cfg \<noteq> [] \<and>
     list_all (\<lambda>p. fst p < length (cities cfg) \<and> snd p < length (cities cfg)) (distant_pairs cfg) \<and>
     0 < num_users cfg \<and> 0 < num_transactions cfg \<and>
     0 < fraud_impossible_travel cfg \<and> 0 < fraud_velocity_spike_users cfg \<and>
     0 < fraud_behavioral_drift cfg"

text \<open>The number of trials, bursts and drift records of a run: each injector samples
  \<^verbatim>\<open>min(n, len(users))\<close> rows.\<close>

definition n_population :: "config \<Rightarrow> nat" where
  "n_population cfg = nat (num_users cfg)"

definition n_trials :: "config \<Rightarrow> nat" where
  "n_trials cfg = nat (min (fraud_impossible_travel cfg) (int (n_population cfg)))"

definition n_bursts :: "config \<Rightarrow> nat" where
  "n_bursts cfg = nat (min (fraud_velocity_spike_users cfg) (int (n_population cfg)))"

definition n_drifts :: "config \<Rightarrow> nat" where
  "n_drifts cfg = nat (min (fraud_behavioral_drift cfg) (int (n_population cfg)))"

text \<open>The sum of the drawn burst sizes.\<close>

definition burst_sizes :: "config \<Rightarrow> draws \<Rightarrow> nat" where
  "burst_sizes cfg dr = sum_list (map (\<lambda>j. nat (bd_n_micro (dr_velocity dr j))) [0..<n_bursts cfg])"

definition total_records :: "config \<Rightarrow> draws \<Rightarrow> nat" where
  "total_records cfg dr =
     nat (num_transactions cfg) + 2 * n_trials cfg + burst_sizes cfg dr + n_drifts cfg"

text \<open>Every draw of a run lies in the range its call returns.\<close>

definition valid_draws :: "config \<Rightarrow> draws \<Rightarrow> bool" where
  "valid_draws cfg dr \<longleftrightarrow>
     list_all (\<lambda>i. valid_profile_draw (cities cfg) (dr_profiles dr i)) [0..<n_population cfg] \<and>
     list_all (\<lambda>i. valid_legit_draw (merchant_categories cfg) (n_population cfg) (dr_legit dr i))
       [0..<nat (num_transactions cfg)] \<and>
     list_all (\<lambda>i. in_sample (n_population cfg) (dr_travel_sample dr i) \<and>
                   valid_travel_draw (distant_pairs cfg) (merchant_categories cfg) (dr_travel dr i))
       [0..<n_trials cfg] \<and>
     is_permutation (n_population cfg) (dr_velocity_sample dr) \<and>
     list_all (\<lambda>j. valid_burst_draw (cities cfg) (dr_velocity dr j)) [0..<n_bursts cfg] \<and>
     list_all (\<lambda>i. in_sample (n_population cfg) (dr_drift_sample dr i) \<and>
                   valid_drift_draw (dr_drift dr i))
       [0..<n_drifts cfg] \<and>
     is_permutation (total_records cfg dr) (dr_shuffle dr)"

text \<open>A record without its transaction identifier.\<close>

definition erase_id :: "txn \<Rightarrow> txn" where
  "erase_id t = t\<lparr>transaction_id := []\<rparr>"

subsection \<open>Example runs\<close>

definition demo_profile_draws :: "nat \<Rightarrow> profile_draw" where
  "demo_profile_draws i = \<lparr>pd_home = 0, pd_avg = 400, pd_frac = 0.25\<rparr>"

definition demo_user :: "nat \<Rightarrow> user" where
  "demo_user i =
     \<lparr>user_id = ''USR-'' @ fmt_06d i, home_city = ''New York'', home_country = ''US'',
      home_lat = 40.7128, home_lon = - 74.0060, avg_amount = 400, std_amount = 100\<rparr>"

definition demo_users :: "user list" where
  "demo_users = [demo_user 0, demo_user 1]"

text \<open>A profile whose two draws lie strictly inside their ranges.\<close>

definition tight_profile_draws :: "nat \<Rightarrow> profile_draw" where
  "tight_profile_draws i = \<lparr>pd_home = 0, pd_avg = 20.01, pd_frac = 0.15001\<rparr>"

definition tight_user :: user where
  "tight_user =
     \<lparr>user_id = ''USR-000000'', home_city = ''New York'', home_country = ''US'',
      home_lat = 40.7128, home_lon = - 74.0060, avg_amount = 20.01, std_amount = 3\<rparr>"

definition demo_uuid :: "nat \<Rightarrow> string" where
  "demo_uuid i = ''3f2b8c1e-5d47-4a90-b6e1-'' @ fmt_06d i"

definition demo_uuid2 :: "nat \<Rightarrow> nat \<Rightarrow> string" where
  "demo_uuid2 i j = ''9a7d0e42-1c3b-4f58-8e6a-'' @ fmt_06d (100 * i + j)"

definition other_uuid :: "nat \<Rightarrow> string" where
  "other_uuid i = ''c0ffee00-0000-4000-8000-'' @ fmt_06d i"

definition other_uuid2 :: "nat \<Rightarrow> nat \<Rightarrow> string" where
  "other_uuid2 i j = ''deadbeef-0000-4000-8000-'' @ fmt_06d (100 * i + j)"

definition first_row :: "nat \<Rightarrow> nat" where
  "first_row i = 0"

text \<open>A legitimate draw whose offset is the lower end of \<^verbatim>\<open>randint(0, delta_seconds)\<close>,
  and one whose offset is the upper end.\<close>

definition demo_legit_draws :: "nat \<Rightarrow> legit_draw" where
  "demo_legit_draws i =
     \<lparr>ld_user = 1, ld_jlat = 0.25, ld_jlon = - 0.25, ld_normal = 412.345, ld_secs = 0,
      ld_company = ''Acme Ltd'', ld_category = 0\<rparr>"

definition last_second_legit_draws :: "nat \<Rightarrow> legit_draw" where
  "last_second_legit_draws i =
     \<lparr>ld_user = 1, ld_jlat = 0.25, ld_jlon = - 0.25, ld_normal = 412.345, ld_secs = 31449600,
      ld_company = ''Acme Ltd'', ld_category = 0\<rparr>"

definition demo_travel_rec :: "nat \<Rightarrow> travel_rec_draw" where
  "demo_travel_rec idx =
     \<lparr>tr_amount = 99.5, tr_company = ''Acme Ltd'', tr_category = 1,
      tr_jlat = 0.005, tr_jlon = - 0.005\<rparr>"

definition demo_travel_draws :: "nat \<Rightarrow> travel_draw" where
  "demo_travel_draws i = \<lparr>td_pair = 0, td_secs = 1000, td_gap = 5, td_rec = demo_travel_rec\<rparr>"

definition demo_micro :: "nat \<Rightarrow> micro_draw" where
  "demo_micro i =
     \<lparr>md_secs = 7, md_amount = 1.5, md_company = ''Acme Ltd'', md_jlat = 0.005, md_jlon = - 0.005\<rparr>"

definition demo_burst_draws :: "nat \<Rightarrow> burst_draw" where
  "demo_burst_draws j = \<lparr>bd_secs = 5000, bd_n_micro = 10, bd_city = 2, bd_micro = demo_micro\<rparr>"

definition demo_drift_draws :: "nat \<Rightarrow> drift_draw" where
  "demo_drift_draws i =
     \<lparr>dd_sigma = 4, dd_secs = 2000, dd_company = ''Acme Ltd'', dd_category = 0,
      dd_jlat = 0.1, dd_jlon = - 0.1\<rparr>"

definition demo_config :: config where
  "demo_config =
     \<lparr>cities = CITIES, distant_pairs = DISTANT_PAIRS, merchant_categories = MERCHANT_CATEGORIES,
      num_users = 2, num_transactions = 1, fraud_impossible_travel = 1,
      fraud_velocity_spike_users = 1, fraud_behavioral_drift = 1\<rparr>"

definition demo_draws :: draws where
  "demo_draws =
     \<lparr>dr_profiles = demo_profile_draws, dr_legit = demo_legit_draws,
      dr_travel_sample = first_row, dr_travel = demo_travel_draws,
      dr_velocity_sample = [1, 0], dr_velocity = demo_burst_draws,
      dr_drift_sample = first_row, dr_drift = demo_drift_draws,
      dr_shuffle = rev [0..<14]\<rparr>"

definition demo_uuids :: uuids where
  "demo_uuids =
     \<lparr>uu_legit = demo_uuid, uu_travel = demo_uuid2, uu_velocity = demo_uuid2, uu_drift = demo_uuid\<rparr>"

definition other_uuids :: uuids where
  "other_uuids =
     \<lparr>uu_legit = other_uuid, uu_travel = other_uuid2, uu_velocity = other_uuid2,
      uu_drift = other_uuid\<rparr>"

text \<open>A population of one with two impossible-travel pairs asked for, and a run with no
  legitimate transactions asked for.\<close>

definition one_user_config :: config where
  "one_user_config =
     \<lparr>cities = CITIES, distant_pairs = DISTANT_PAIRS, merchant_categories = MERCHANT_CATEGORIES,
      num_users = 1, num_transactions = 1, fraud_impossible_travel = 2,
      fraud_velocity_spike_users = 1, fraud_behavioral_drift = 1\<rparr>"

definition one_user_legit_draws :: "nat \<Rightarrow> legit_draw" where
  "one_user_legit_draws i =
     \<lparr>ld_user = 0, ld_jlat = 0.25, ld_jlon = - 0.25, ld_normal = 412.345, ld_secs = 86400,
      ld_company = ''Acme Ltd'', ld_category = 0\<rparr>"

definition one_user_draws :: draws where
  "one_user_draws =
     \<lparr>dr_profiles = demo_profile_draws, dr_legit = one_user_legit_draws,
      dr_travel_sample = first_row, dr_travel = demo_travel_draws,
      dr_velocity_sample = [0], dr_velocity = demo_burst_draws,
      dr_drift_sample = first_row, dr_drift = demo_drift_draws,
      dr_shuffle = rev [0..<14]\<rparr>"





text \<open>Two velocity-spike records of one user with one timestamp and different amounts.\<close>

definition tie_txn :: "string \<Rightarrow> real \<Rightarrow> txn" where
  "tie_txn uuid amt =
     \<lparr>transaction_id = uuid, txn_user_id = ''USR-000000'', timestamp = 5007, amount = amt,
      merchant_name = ''Acme Ltd'', merchant_category = ''Online Shopping'',
      city = ''Tokyo'', country = ''JP'', latitude = 35.6812, longitude = 139.6453,
      is_fraud = True, fraud_type = Some ''velocity_spike''\<rparr>"

section \<open>Rounding\<close>

lemma round_half_even_cases:
  "round_half_even x = \<lfloor>x\<rfloor> \<or> round_half_even x = \<lfloor>x\<rfloor> + 1"
  by (simp add: round_half_even_def Let_def)

lemma round_half_even_lower: "x - 1 / 2 \<le> of_int (round_half_even x)"
  unfolding round_half_even_def Let_def by (auto; linarith)

lemma round_half_even_upper: "of_int (round_half_even x) \<le> x + 1 / 2"
  unfolding round_half_even_def Let_def by (auto; linarith)

lemma round_half_even_of_int [simp]: "round_half_even (of_int n) = n"
  by (simp add: round_half_even_def Let_def)

lemma round_half_even_ge_int:
  assumes "of_int n \<le> x" shows "n \<le> round_half_even x"
proof -
  from assms have "n \<le> \<lfloor>x\<rfloor>" by (simp add: le_floor_iff)
  moreover have "\<lfloor>x\<rfloor> \<le> round_half_even x"
    using round_half_even_cases [of x] by auto
  ultimately show ?thesis by simp
qed

lemma round_half_even_le_int:
  assumes "x \<le> of_int n" shows "round_half_even x \<le> n"
proof (cases "x = of_int n")
  case True
  then show ?thesis by simp
next
  case False
  with assms have "x < of_int n" by simp
  then have "\<lfloor>x\<rfloor> < n" by (simp add: floor_less_iff)
  then show ?thesis using round_half_even_cases [of x] by auto
qed

lemma py_round_lower: "x - 1 / (2 * 10 ^ nd) \<le> py_round x nd"
proof -
  have "x * 10 ^ nd - 1 / 2 \<le> of_int (round_half_even (x * 10 ^ nd))"
    by (rule round_half_even_lower)
  then have "(x * 10 ^ nd - 1 / 2) / 10 ^ nd \<le> py_round x nd"
    unfolding py_round_def by (simp add: divide_right_mono)
  then show ?thesis by (simp add: diff_divide_distrib)
qed

lemma py_round_upper: "py_round x nd \<le> x + 1 / (2 * 10 ^ nd)"
proof -
  have "of_int (round_half_even (x * 10 ^ nd)) \<le> x * 10 ^ nd + 1 / 2"
    by (rule round_half_even_upper)
  then have "py_round x nd \<le> (x * 10 ^ nd + 1 / 2) / 10 ^ nd"
    unfolding py_round_def by (simp add: divide_right_mono)
  then show ?thesis by (simp add: add_divide_distrib)
qed

lemma py_round_ge:
  assumes "of_int n / 10 ^ nd \<le> x" shows "of_int n / 10 ^ nd \<le> py_round x nd"
proof -
  from assms have "of_int n \<le> x * 10 ^ nd" by (simp add: pos_divide_le_eq)
  then have "n \<le> round_half_even (x * 10 ^ nd)" by (rule round_half_even_ge_int)
  then have "(of_int n :: real) \<le> of_int (round_half_even (x * 10 ^ nd))" by simp
  then show ?thesis unfolding py_round_def by (simp add: divide_right_mono)
qed

lemma py_round_le:
  assumes "x \<le> of_int n / 10 ^ nd" shows "py_round x nd \<le> of_int n / 10 ^ nd"
proof -
  from assms have "x * 10 ^ nd \<le> of_int n" by (simp add: pos_le_divide_eq)
  then have "round_half_even (x * 10 ^ nd) \<le> n" by (rule round_half_even_le_int)
  then have "(of_int (round_half_even (x * 10 ^ nd)) :: real) \<le> of_int n" by simp
  then show ?thesis unfolding py_round_def by (simp add: divide_right_mono)
qed

lemma py_round2_ge_20: "20 \<le> x \<Longrightarrow> 20 \<le> py_round x 2"
  using py_round_ge [of 2000 2 x] by simp

lemma py_round2_le_500: "x \<le> 500 \<Longrightarrow> py_round x 2 \<le> 500"
  using py_round_le [of x 50000 2] by simp

lemma py_round2_ge_3: "3 \<le> x \<Longrightarrow> 3 \<le> py_round x 2"
  using py_round_ge [of 300 2 x] by simp

lemma py_round2_ge_10: "10 \<le> x \<Longrightarrow> 10 \<le> py_round x 2"
  using py_round_ge [of 1000 2 x] by simp

lemma py_round2_ge_cent: "0.01 \<le> x \<Longrightarrow> 0.01 \<le> py_round x 2"
  using py_round_ge [of 1 2 x] by simp

lemma py_round2_lower: "x - 0.005 \<le> py_round x 2"
  using py_round_lower [of x 2] by simp

lemma py_round2_upper: "py_round x 2 \<le> x + 0.005"
  using py_round_upper [of x 2] by simp

section \<open>Loops and ranges\<close>

lemma mapE_Inr_iff:
  "mapE f xs = Inr ys \<longleftrightarrow> length ys = length xs \<and> (\<forall>i < length xs. f (xs ! i) = Inr (ys ! i))"
proof (induction xs arbitrary: ys)
  case Nil
  then show ?case by auto
next
  case (Cons x xs)
  show ?case
  proof (cases ys)
    case Nil
    then show ?thesis by (simp split: sum.splits)
  next
    case (Cons y ys')
    have "mapE f (x # xs) = Inr (y # ys') \<longleftrightarrow> f x = Inr y \<and> mapE f xs = Inr ys'"
      by (simp split: sum.splits)
    also have "\<dots> \<longleftrightarrow> f x = Inr y \<and> length ys' = length xs \<and> (\<forall>i < length xs. f (xs ! i) = Inr (ys' ! i))"
      by (simp add: Cons.IH)
    also have "\<dots> \<longleftrightarrow> length (y # ys') = length (x # xs) \<and>
        (\<forall>i < length (x # xs). f ((x # xs) ! i) = Inr ((y # ys') ! i))"
      by (auto simp: All_less_Suc2)
    finally show ?thesis using Cons by simp
  qed
qed

lemma mapE_total:
  "(\<And>x. x \<in> set xs \<Longrightarrow> f x = Inr (g x)) \<Longrightarrow> mapE f xs = Inr (map g xs)"
  by (induction xs) auto

lemma mapE_Inl_first:
  "xs \<noteq> [] \<Longrightarrow> f (hd xs) = Inl e \<Longrightarrow> mapE f xs = Inl e"
  by (cases xs) auto


lemma mapE_length: "mapE f xs = Inr ys \<Longrightarrow> length ys = length xs"
  by (simp add: mapE_Inr_iff)

lemma mapE_nth: "mapE f xs = Inr ys \<Longrightarrow> i < length xs \<Longrightarrow> f (xs ! i) = Inr (ys ! i)"
  by (simp add: mapE_Inr_iff)

lemma length_range_py [simp]: "length (range_py n) = nat n"
  by (simp add: range_py_def)

lemma nth_range_py [simp]: "i < nat n \<Longrightarrow> range_py n ! i = i"
  by (simp add: range_py_def)

lemma set_range_py: "set (range_py n) = {i. int i < n}"
  by (auto simp: range_py_def)

section \<open>Identifiers\<close>

lemma digits10_nonempty: "digits10 n \<noteq> []"
  by (subst digits10.simps) simp

lemma digit_value_foldl_append:
  "foldl (\<lambda>acc c. 10 * acc + (of_char c - 48)) a (xs @ [c]) =
   10 * foldl (\<lambda>acc c. 10 * acc + (of_char c - 48)) a xs + (of_char c - 48)"
  by simp

lemma of_char_digit: "d < 10 \<Longrightarrow> of_char (digit_char d) - 48 = (d::nat)"
proof -
  assume "d < 10"
  then have "d \<in> {0, 1, 2, 3, 4, 5, 6, 7, 8, 9}" by auto
  then show ?thesis by (auto simp: digit_char_def)
qed

lemma digits_value_digits10: "digits_value (digits10 n) = n"
proof (induction n rule: digits10.induct)
  case (1 n)
  show ?case
  proof (cases "n < 10")
    case True
    then show ?thesis
      by (subst digits10.simps) (simp add: digits_value_def of_char_digit)
  next
    case False
    with 1 have "digits_value (digits10 (n div 10)) = n div 10" by simp
    with False show ?thesis
      by (subst digits10.simps) (simp add: digits_value_def of_char_digit)
  qed
qed

lemma foldl_zeros:
  "foldl (\<lambda>acc c. 10 * acc + (of_char c - 48)) (0::nat) (replicate k (CHR ''0'') @ s) =
   foldl (\<lambda>acc c. 10 * acc + (of_char c - 48)) 0 s"
  by (induction k) simp_all

lemma digits_value_fmt_06d: "digits_value (fmt_06d i) = i"
  using digits_value_digits10 [of i]
  by (simp add: fmt_06d_def digits_value_def foldl_zeros del: foldl_append)

lemma fmt_06d_inj: "fmt_06d i = fmt_06d j \<Longrightarrow> i = j"
  by (metis digits_value_fmt_06d)

lemma length_fmt_06d: "6 \<le> length (fmt_06d i)"
  by (simp add: fmt_06d_def)


lemma replicate_numeral: "replicate (numeral v) x = x # replicate (numeral v - 1) x"
  by (simp add: numeral_eq_Suc)

section \<open>The profile generator\<close>

lemma mapE_returns:
  "(\<And>x. x \<in> set xs \<Longrightarrow> \<exists>y. f x = Inr y) \<Longrightarrow> \<exists>ys. mapE f xs = Inr ys"
proof (induction xs)
  case Nil
  then show ?case by simp
next
  case (Cons x xs)
  then obtain y where "f x = Inr y" by fastforce
  moreover from Cons obtain ys where "mapE f xs = Inr ys" by fastforce
  ultimately show ?case by simp
qed

lemma in_choice_nonempty: "in_choice seq k \<Longrightarrow> seq \<noteq> []"
  by (auto simp: in_choice_def)

lemma profile_row_Inr:
  assumes "profile_row cs i d = Inr u"
  shows "cs \<noteq> []"
    and "user_id u = ''USR-'' @ fmt_06d i"
    and "avg_amount u = py_round (pd_avg d) 2"
    and "std_amount u = py_round (avg_amount u * pd_frac d) 2"
    and "home_city u = c_city (cs ! pd_home d)"
    and "home_country u = c_country (cs ! pd_home d)"
    and "home_lat u = c_lat (cs ! pd_home d)"
    and "home_lon u = c_lon (cs ! pd_home d)"
  using assms by (auto simp: profile_row_def choice_def Let_def split: if_splits)

lemma profile_row_returns: "cs \<noteq> [] \<Longrightarrow> \<exists>u. profile_row cs i d = Inr u"
  by (simp add: profile_row_def choice_def Let_def)


lemma generate_user_profiles_Inr:
  assumes "generate_user_profiles cs n draws = Inr users"
  shows "length users = nat n"
    and "i < nat n \<Longrightarrow> profile_row cs i (draws i) = Inr (users ! i)"
proof -
  from assms have m: "mapE (\<lambda>i. profile_row cs i (draws i)) (range_py n) = Inr users"
    by (simp add: generate_user_profiles_def)
  from mapE_length [OF m] show "length users = nat n" by simp
  assume "i < nat n"
  with mapE_nth [OF m, of i] show "profile_row cs i (draws i) = Inr (users ! i)" by simp
qed

lemma generate_user_profiles_returns:
  "cs \<noteq> [] \<or> n \<le> 0 \<Longrightarrow> \<exists>users. generate_user_profiles cs n draws = Inr users"
  unfolding generate_user_profiles_def
  by (rule mapE_returns) (auto simp: set_range_py dest: profile_row_returns)

lemma generated_profile_bounds:
  assumes gen: "generate_user_profiles cs n draws = Inr users"
    and i: "i < length users"
    and valid: "valid_profile_draw cs (draws i)"
  shows "20 \<le> avg_amount (users ! i)"
    and "avg_amount (users ! i) \<le> 500"
    and "3 \<le> std_amount (users ! i)"
    and "0.15 * avg_amount (users ! i) - 0.005 \<le> std_amount (users ! i)"
    and "std_amount (users ! i) \<le> 0.40 * avg_amount (users ! i) + 0.005"
proof -
  let ?u = "users ! i"
  let ?a = "avg_amount ?u"
  let ?f = "pd_frac (draws i)"
  from gen i have row: "profile_row cs i (draws i) = Inr ?u"
    using generate_user_profiles_Inr [OF gen] by simp
  have avg: "?a = py_round (pd_avg (draws i)) 2" using row by (rule profile_row_Inr)
  have std: "std_amount ?u = py_round (?a * ?f) 2" using row by (rule profile_row_Inr)
  from valid have a: "20 \<le> pd_avg (draws i)" "pd_avg (draws i) \<le> 500"
    and f: "0.15 \<le> ?f" "?f \<le> 0.40"
    by (simp_all add: valid_profile_draw_def in_uniform_def)
  from a show A: "20 \<le> ?a" "?a \<le> 500"
    unfolding avg by (simp_all add: py_round2_ge_20 py_round2_le_500)
  have lo: "?a * 0.15 \<le> ?a * ?f" using A f by (intro mult_left_mono) simp_all
  have hi: "?a * ?f \<le> ?a * 0.40" using A f by (intro mult_left_mono) simp_all
  have "3 \<le> ?a * 0.15" using A by simp
  with lo have "3 \<le> ?a * ?f" by linarith
  then show "3 \<le> std_amount ?u" unfolding std by (rule py_round2_ge_3)
  have "?a * ?f - 0.005 \<le> std_amount ?u" unfolding std by (rule py_round2_lower)
  with lo show "0.15 * ?a - 0.005 \<le> std_amount ?u" by simp
  have "std_amount ?u \<le> ?a * ?f + 0.005" unfolding std by (rule py_round2_upper)
  with hi show "std_amount ?u \<le> 0.40 * ?a + 0.005" by simp
qed

lemma generated_ids:
  assumes "generate_user_profiles cs n draws = Inr users" and "i < length users"
  shows "user_id (users ! i) = ''USR-'' @ fmt_06d i"
proof -
  from assms have "i < nat n" using generate_user_profiles_Inr(1) [OF assms(1)] by simp
  with assms(1) have "profile_row cs i (draws i) = Inr (users ! i)"
    by (rule generate_user_profiles_Inr)
  then show ?thesis by (rule profile_row_Inr)
qed

lemma generated_ids_distinct:
  assumes gen: "generate_user_profiles cs n draws = Inr users"
  shows "distinct (map user_id users)"
  unfolding distinct_conv_nth
proof (intro allI impI)
  fix i j assume "i < length (map user_id users)" "j < length (map user_id users)" "i \<noteq> j"
  then show "map user_id users ! i \<noteq> map user_id users ! j"
    using generated_ids [OF gen] by (auto dest: fmt_06d_inj)
qed

text \<open>Claim C8 (as amended). For draws in their ranges the profile generator returns
  exactly \<open>n\<close> profiles (none when \<open>n\<close> is not positive); the identifier of profile \<open>i\<close> is
  \<^verbatim>\<open>USR-\<close> followed by \<open>i\<close> in decimal, zero-padded to six digits; the identifiers are
  pairwise distinct; and every profile has a positive average spend and a standard deviation
  that is positive and lies within half a cent of the interval from 0.15 to 0.40 times the
  average spend. The standard deviation is rounded to two decimals after the multiplication,
  so it need not lie strictly between the two products.\<close>

theorem C8_generate_user_profiles:
  assumes valid: "\<forall>i < nat n. valid_profile_draw cs (draws i)"
  shows "\<exists>users. generate_user_profiles cs n draws = Inr users \<and>
           length users = nat n \<and>
           (\<forall>i < nat n. user_id (users ! i) = ''USR-'' @ fmt_06d i) \<and>
           distinct (map user_id users) \<and>
           (\<forall>i < nat n.
              0 < avg_amount (users ! i) \<and> 0 < std_amount (users ! i) \<and>
              0.15 * avg_amount (users ! i) - 0.005 \<le> std_amount (users ! i) \<and>
              std_amount (users ! i) \<le> 0.40 * avg_amount (users ! i) + 0.005)"
proof -
  have "cs \<noteq> [] \<or> n \<le> 0"
  proof (cases "0 < n")
    case True
    then have "valid_profile_draw cs (draws 0)" using valid by simp
    then show ?thesis by (auto simp: valid_profile_draw_def dest: in_choice_nonempty)
  qed simp
  then obtain users where gen: "generate_user_profiles cs n draws = Inr users"
    using generate_user_profiles_returns by blast
  have len: "length users = nat n" using gen by (rule generate_user_profiles_Inr)
  have ids: "\<forall>i < nat n. user_id (users ! i) = ''USR-'' @ fmt_06d i"
    using generated_ids [OF gen] len by simp
  have dist: "distinct (map user_id users)" using gen by (rule generated_ids_distinct)
  have bounds: "\<forall>i < nat n.
      0 < avg_amount (users ! i) \<and> 0 < std_amount (users ! i) \<and>
      0.15 * avg_amount (users ! i) - 0.005 \<le> std_amount (users ! i) \<and>
      std_amount (users ! i) \<le> 0.40 * avg_amount (users ! i) + 0.005"
  proof (intro allI impI)
    fix i assume i: "i < nat n"
    with valid have v: "valid_profile_draw cs (draws i)" by simp
    from i len have i': "i < length users" by simp
    show "0 < avg_amount (users ! i) \<and> 0 < std_amount (users ! i) \<and>
      0.15 * avg_amount (users ! i) - 0.005 \<le> std_amount (users ! i) \<and>
      std_amount (users ! i) \<le> 0.40 * avg_amount (users ! i) + 0.005"
      using generated_profile_bounds [OF gen i' v] by simp
  qed
  from gen len ids dist bounds show ?thesis by blast
qed

section \<open>The drift injector\<close>

lemma mapE_enumerate_nth:
  assumes "mapE (\<lambda>(i, x). f i x) (enumerate 0 xs) = Inr ys"
  shows "length ys = length xs" and "i < length xs \<Longrightarrow> f i (xs ! i) = Inr (ys ! i)"
proof -
  from assms show len: "length ys = length xs" by (auto dest: mapE_length)
  assume i: "i < length xs"
  then have "(\<lambda>(i, x). f i x) (enumerate 0 xs ! i) = Inr (ys ! i)"
    using mapE_nth [OF assms, of i] by simp
  with i show "f i (xs ! i) = Inr (ys ! i)" by (simp add: nth_enumerate_eq)
qed

lemma sample_replace_Inr:
  assumes "sample_replace df n ks = Inr s"
  shows "0 \<le> n" and "length s = nat n" and "i < nat n \<Longrightarrow> s ! i = df ! ks i"
  using assms by (auto simp: sample_replace_def split: if_splits)

lemma sample_replace_returns:
  "0 \<le> n \<Longrightarrow> df \<noteq> [] \<or> n = 0 \<Longrightarrow> \<exists>s. sample_replace df n ks = Inr s"
  by (auto simp: sample_replace_def)

lemma DRIFT_CATEGORIES_nonempty: "DRIFT_CATEGORIES \<noteq> []"
  by (simp add: DRIFT_CATEGORIES_def)

lemma drift_row_Inr:
  assumes "drift_row usr d uuid = Inr t"
  shows "txn_user_id t = user_id usr"
    and "amount t = max (py_round (avg_amount usr + dd_sigma d * std_amount usr) 2) 500"
    and "timestamp t = start_date + dd_secs d"
    and "is_fraud t" and "fraud_type t = Some ''behavioral_drift''"
    and "transaction_id t = uuid"
  using assms DRIFT_CATEGORIES_nonempty
  by (auto simp: drift_row_def Let_def choice_def split: if_splits)

lemma drift_row_returns: "\<exists>t. drift_row usr d uuid = Inr t"
  using DRIFT_CATEGORIES_nonempty by (simp add: drift_row_def Let_def choice_def)

lemma inject_behavioral_drift_Inr:
  assumes "inject_behavioral_drift df n_txns ks draws uuids = Inr txns"
  shows "0 \<le> min n_txns (int (length df))"
    and "length txns = nat (min n_txns (int (length df)))"
    and "i < length txns \<Longrightarrow> drift_row (df ! ks i) (draws i) (uuids i) = Inr (txns ! i)"
proof -
  let ?n = "min n_txns (int (length df))"
  from assms obtain s where s: "sample_replace df ?n ks = Inr s"
    and m: "mapE (\<lambda>(i, usr). drift_row usr (draws i) (uuids i)) (enumerate 0 s) = Inr txns"
    by (auto simp: inject_behavioral_drift_def split: sum.splits)
  from s show "0 \<le> ?n" by (rule sample_replace_Inr)
  from s have ls: "length s = nat ?n" by (rule sample_replace_Inr)
  from m have lt: "length txns = length s" by (rule mapE_enumerate_nth)
  with ls show "length txns = nat ?n" by simp
  assume i: "i < length txns"
  with lt have "drift_row (s ! i) (draws i) (uuids i) = Inr (txns ! i)"
    using mapE_enumerate_nth(2) [OF m, of i] by simp
  moreover from i lt ls have "s ! i = df ! ks i"
    using sample_replace_Inr(3) [OF s, of i] by simp
  ultimately show "drift_row (df ! ks i) (draws i) (uuids i) = Inr (txns ! i)" by simp
qed

lemma drift_amount_gt:
  assumes m: "3.5 \<le> m" and s: "0.01 < s"
  shows "a + 3 * s < max (py_round (a + m * s) 2) 500"
proof -
  from s have s': "1 / 100 < s" by simp
  have "3.5 * s \<le> m * s" using m s by (intro mult_right_mono) simp_all
  then have ms: "7 / 2 * s \<le> m * s" by simp
  have "a + m * s - 0.005 \<le> py_round (a + m * s) 2" by (rule py_round2_lower)
  then have r: "a + m * s - 1 / 200 \<le> py_round (a + m * s) 2" by simp
  from s' ms r have "a + 3 * s < py_round (a + m * s) 2" by linarith
  then show ?thesis by simp
qed

text \<open>Claim C1. For profiles produced by the profile generator from draws in range, and for
  drift draws in range (the multiplier between 3.5 and 8.0), every record the drift injector
  emits carries the identifier of the sampled user and an amount (the mean plus the
  multiplier times the standard deviation, rounded to two decimals and raised to 500 if lower)
  strictly greater than that user's stored mean plus three times that user's stored standard
  deviation.\<close>

theorem C1_drift_amount_above_three_sigma:
  assumes profiles: "\<forall>i < nat n_users. valid_profile_draw cs (pdraws i)"
    and users: "generate_user_profiles cs n_users pdraws = Inr users"
    and drift: "\<forall>i < nat (min n_txns (int (length users))).
                  in_sample (length users) (ks i) \<and> valid_drift_draw (draws i)"
    and txns: "inject_behavioral_drift users n_txns ks draws uuids = Inr txns"
  shows "\<forall>i < length txns.
           txn_user_id (txns ! i) = user_id (users ! ks i) \<and>
           amount (txns ! i)
             = max (py_round (avg_amount (users ! ks i)
                                + dd_sigma (draws i) * std_amount (users ! ks i)) 2) 500 \<and>
           avg_amount (users ! ks i) + 3 * std_amount (users ! ks i) < amount (txns ! i)"
proof (intro allI impI)
  fix i assume i: "i < length txns"
  have len: "length txns = nat (min n_txns (int (length users)))"
    using txns by (rule inject_behavioral_drift_Inr)
  have row: "drift_row (users ! ks i) (draws i) (uuids i) = Inr (txns ! i)"
    using txns i by (rule inject_behavioral_drift_Inr)
  from drift i len have k: "ks i < length users" and d: "valid_drift_draw (draws i)"
    by (simp_all add: in_sample_def)
  from users have "length users = nat n_users" by (rule generate_user_profiles_Inr)
  with k profiles have "valid_profile_draw cs (pdraws (ks i))" by simp
  with users k have "3 \<le> std_amount (users ! ks i)" by (rule generated_profile_bounds)
  moreover from d have "3.5 \<le> dd_sigma (draws i)"
    by (simp add: valid_drift_draw_def in_uniform_def)
  ultimately have "avg_amount (users ! ks i) + 3 * std_amount (users ! ks i)
      < max (py_round (avg_amount (users ! ks i) + dd_sigma (draws i) * std_amount (users ! ks i)) 2) 500"
    by (intro drift_amount_gt) simp_all
  with drift_row_Inr(1,2) [OF row]
  show "txn_user_id (txns ! i) = user_id (users ! ks i) \<and>
        amount (txns ! i)
          = max (py_round (avg_amount (users ! ks i)
                             + dd_sigma (draws i) * std_amount (users ! ks i)) 2) 500 \<and>
        avg_amount (users ! ks i) + 3 * std_amount (users ! ks i) < amount (txns ! i)"
    by simp
qed

section \<open>The generators, row by row\<close>

lemma sample_one_Inr: "sample_one df k = Inr u \<Longrightarrow> df \<noteq> [] \<and> u = df ! k"
  by (auto simp: sample_one_def split: if_splits)

lemma legit_row_Inr:
  assumes "legit_row cats df d uuid = Inr t"
  shows "df \<noteq> []" and "cats \<noteq> []"
    and "txn_user_id t = user_id (df ! ld_user d)"
    and "amount t = max 0.50 (py_round (ld_normal d) 2)"
    and "timestamp t = start_date + ld_secs d"
    and "\<not> is_fraud t" and "fraud_type t = None"
    and "transaction_id t = uuid"
  using assms
  by (auto simp: legit_row_def sample_one_def normal_def choice_def Let_def
      split: if_splits)

lemma legit_row_returns:
  "df \<noteq> [] \<Longrightarrow> cats \<noteq> [] \<Longrightarrow> 0 \<le> std_amount (df ! ld_user d)
    \<Longrightarrow> \<exists>t. legit_row cats df d uuid = Inr t"
  by (simp add: legit_row_def sample_one_def normal_def choice_def Let_def)


lemma generate_legitimate_transactions_Inr:
  assumes "generate_legitimate_transactions cats df n draws uuids = Inr txns"
  shows "length txns = nat n"
    and "i < nat n \<Longrightarrow> legit_row cats df (draws i) (uuids i) = Inr (txns ! i)"
proof -
  from assms have m: "mapE (\<lambda>i. legit_row cats df (draws i) (uuids i)) (range_py n) = Inr txns"
    by (simp add: generate_legitimate_transactions_def)
  from mapE_length [OF m] show "length txns = nat n" by simp
  assume "i < nat n"
  with mapE_nth [OF m, of i] show "legit_row cats df (draws i) (uuids i) = Inr (txns ! i)"
    by simp
qed

lemma travel_record_Inr:
  assumes "travel_record cats usr base_ts gap idx cty r uuid = Inr t"
  shows "cats \<noteq> []"
    and "txn_user_id t = user_id usr"
    and "timestamp t = base_ts + 60 * (int idx * gap)"
    and "amount t = py_round (tr_amount r) 2"
    and "city t = c_city cty" and "country t = c_country cty"
    and "is_fraud t" and "fraud_type t = Some ''impossible_travel''"
    and "transaction_id t = uuid"
    and "latitude t = py_round (c_lat cty + tr_jlat r) 6"
    and "longitude t = py_round (c_lon cty + tr_jlon r) 6"
  using assms by (auto simp: travel_record_def choice_def Let_def split: if_splits)

lemma travel_record_returns:
  "cats \<noteq> [] \<Longrightarrow> \<exists>t. travel_record cats usr base_ts gap idx cty r uuid = Inr t"
  by (simp add: travel_record_def choice_def Let_def)

lemma index_Inr: "index seq i = Inr x \<Longrightarrow> i < length seq \<and> x = seq ! i"
  by (auto simp: index_def split: if_splits)

lemma travel_trial_Inr:
  assumes "travel_trial cs pairs cats usr d uuids = Inr g"
  shows "\<exists>a b. g = [a, b] \<and> pairs \<noteq> [] \<and>
           fst (pairs ! td_pair d) < length cs \<and> snd (pairs ! td_pair d) < length cs \<and>
           travel_record cats usr (start_date + td_secs d) (td_gap d) 0
             (cs ! fst (pairs ! td_pair d)) (td_rec d 0) (uuids 0) = Inr a \<and>
           travel_record cats usr (start_date + td_secs d) (td_gap d) 1
             (cs ! snd (pairs ! td_pair d)) (td_rec d 1) (uuids 1) = Inr b"
  using assms
  by (auto simp: travel_trial_def choice_def index_def Let_def enumerate_eq_zip
      split: if_splits sum.splits)

lemma travel_trial_returns:
  assumes "pairs \<noteq> []" "fst (pairs ! td_pair d) < length cs" "snd (pairs ! td_pair d) < length cs"
    and "cats \<noteq> []"
  shows "\<exists>g. travel_trial cs pairs cats usr d uuids = Inr g"
  using assms
  by (simp add: travel_trial_def choice_def index_def Let_def enumerate_eq_zip
      travel_record_def)

lemma inject_impossible_travel_Inr:
  assumes "inject_impossible_travel cs pairs cats df n_pairs ks draws uuids = Inr txns"
  shows "\<exists>groups. txns = concat groups \<and>
           0 \<le> min n_pairs (int (length df)) \<and>
           length groups = nat (min n_pairs (int (length df))) \<and>
           (\<forall>i < length groups.
              travel_trial cs pairs cats (df ! ks i) (draws i) (uuids i) = Inr (groups ! i))"
proof -
  let ?n = "min n_pairs (int (length df))"
  from assms obtain s groups where s: "sample_replace df ?n ks = Inr s"
    and m: "mapE (\<lambda>(i, usr). travel_trial cs pairs cats usr (draws i) (uuids i)) (enumerate 0 s)
              = Inr groups"
    and t: "txns = concat groups"
    by (auto simp: inject_impossible_travel_def split: sum.splits)
  from s have n: "0 \<le> ?n" and ls: "length s = nat ?n" by (rule sample_replace_Inr)+
  from m have lg: "length groups = length s" by (rule mapE_enumerate_nth)
  have "\<forall>i < length groups.
      travel_trial cs pairs cats (df ! ks i) (draws i) (uuids i) = Inr (groups ! i)"
  proof (intro allI impI)
    fix i assume i: "i < length groups"
    with lg have "travel_trial cs pairs cats (s ! i) (draws i) (uuids i) = Inr (groups ! i)"
      using mapE_enumerate_nth(2) [OF m, of i] by simp
    moreover from i lg ls have "s ! i = df ! ks i"
      using sample_replace_Inr(3) [OF s, of i] by simp
    ultimately show "travel_trial cs pairs cats (df ! ks i) (draws i) (uuids i) = Inr (groups ! i)"
      by simp
  qed
  with t n lg ls show ?thesis by auto
qed

lemma sample_no_replace_Inr:
  assumes "sample_no_replace df n perm = Inr s"
  shows "0 \<le> n" and "n \<le> int (length df)" and "s = map (\<lambda>i. df ! i) (take (nat n) perm)"
  using assms by (auto simp: sample_no_replace_def split: if_splits)

lemma velocity_burst_Inr:
  assumes "velocity_burst cs usr d uuids = Inr b"
  shows "cs \<noteq> []"
    and "b = map (\<lambda>i. micro_record usr (start_date + bd_secs d) (cs ! bd_city d) (bd_micro d i) (uuids i))
               (range_py (bd_n_micro d))"
  using assms by (auto simp: velocity_burst_def choice_def Let_def split: if_splits)

lemma velocity_burst_returns: "cs \<noteq> [] \<Longrightarrow> \<exists>b. velocity_burst cs usr d uuids = Inr b"
  by (simp add: velocity_burst_def choice_def Let_def)

lemma inject_velocity_spikes_Inr:
  assumes "inject_velocity_spikes cs df n_users perm draws uuids = Inr txns"
  shows "\<exists>bursts. txns = concat bursts \<and>
           0 \<le> min n_users (int (length df)) \<and>
           length bursts = length (take (nat (min n_users (int (length df)))) perm) \<and>
           (\<forall>j < length bursts.
              velocity_burst cs (df ! (perm ! j)) (draws j) (uuids j) = Inr (bursts ! j))"
proof -
  let ?n = "min n_users (int (length df))"
  from assms obtain s bursts where s: "sample_no_replace df ?n perm = Inr s"
    and m: "mapE (\<lambda>(i, usr). velocity_burst cs usr (draws i) (uuids i)) (enumerate 0 s) = Inr bursts"
    and t: "txns = concat bursts"
    by (auto simp: inject_velocity_spikes_def split: sum.splits)
  from s have n: "0 \<le> ?n" and ss: "s = map (\<lambda>i. df ! i) (take (nat ?n) perm)"
    by (rule sample_no_replace_Inr)+
  from m have lb: "length bursts = length s" by (rule mapE_enumerate_nth)
  have "\<forall>j < length bursts.
      velocity_burst cs (df ! (perm ! j)) (draws j) (uuids j) = Inr (bursts ! j)"
  proof (intro allI impI)
    fix j assume j: "j < length bursts"
    with lb have "velocity_burst cs (s ! j) (draws j) (uuids j) = Inr (bursts ! j)"
      using mapE_enumerate_nth(2) [OF m, of j] by simp
    moreover from j lb ss have "s ! j = df ! (perm ! j)" by simp
    ultimately show "velocity_burst cs (df ! (perm ! j)) (draws j) (uuids j) = Inr (bursts ! j)"
      by simp
  qed
  with t n lb ss show ?thesis by auto
qed

section \<open>Timestamps of the sampler and travel pairs\<close>

lemma start_end_dates: "start_date = 0" "end_date = 31449600" "delta_seconds = 31449600"
  "days364_seconds = 31449600"
  by (simp_all add: start_date_def end_date_def delta_seconds_def days364_seconds_def)

text \<open>Claim C10 (as amended). Every record of the legitimate sampler has a timestamp equal to
  the window start plus the drawn offset, hence between the window start and the window end,
  both ends included.\<close>

theorem C10_legitimate_timestamps_in_window:
  assumes gen: "generate_legitimate_transactions cats df n_txns draws uuids = Inr txns"
    and valid: "\<forall>i < nat n_txns. valid_legit_draw cats (length df) (draws i)"
  shows "length txns = nat n_txns \<and>
         (\<forall>i < nat n_txns.
            timestamp (txns ! i) = start_date + ld_secs (draws i) \<and>
            start_date \<le> timestamp (txns ! i) \<and> timestamp (txns ! i) \<le> end_date)"
proof (intro conjI allI impI)
  show "length txns = nat n_txns" using gen by (rule generate_legitimate_transactions_Inr)
next
  fix i assume i: "i < nat n_txns"
  with gen have row: "legit_row cats df (draws i) (uuids i) = Inr (txns ! i)"
    by (rule generate_legitimate_transactions_Inr)
  then show ts: "timestamp (txns ! i) = start_date + ld_secs (draws i)" by (rule legit_row_Inr)
  from valid i have "0 \<le> ld_secs (draws i)" "ld_secs (draws i) \<le> delta_seconds"
    by (simp_all add: valid_legit_draw_def in_randint_def)
  then show "start_date \<le> timestamp (txns ! i)" "timestamp (txns ! i) \<le> end_date"
    unfolding ts by (simp_all add: delta_seconds_def)
qed

lemma concat_pairs:
  assumes "\<forall>g \<in> set gs. length g = 2"
  shows "length (concat gs) = 2 * length gs"
    and "i < length gs \<Longrightarrow> concat gs ! (2 * i) = gs ! i ! 0 \<and> concat gs ! (2 * i + 1) = gs ! i ! 1"
  using assms
proof (induction gs arbitrary: i)
  case Nil
  { case 1 show ?case by simp }
  { case 2 then show ?case by simp }
next
  case (Cons g gs)
  { case 1
    then have "length g = 2" "\<forall>g \<in> set gs. length g = 2" by simp_all
    with Cons.IH(1) show ?case by simp }
  { case 2
    then have g: "length g = 2" and gs: "\<forall>g \<in> set gs. length g = 2" by simp_all
    from g obtain a b where ab: "g = [a, b]"
      by (cases g; cases "tl g") (auto simp: length_Suc_conv)
    show ?case
    proof (cases i)
      case 0
      with ab show ?thesis by simp
    next
      case (Suc j)
      with 2 have "j < length gs" by simp
      from Cons.IH(2) [OF this gs] Suc ab show ?thesis by simp
    qed }
qed

lemma py_round6_near: "\<bar>py_round x 6 - x\<bar> \<le> 1 / 2000000"
proof -
  have l: "x - 1 / 2000000 \<le> py_round x 6" using py_round_lower [of x 6] by simp
  have u: "py_round x 6 \<le> x + 1 / 2000000" using py_round_upper [of x 6] by simp
  from l u show ?thesis by linarith
qed

lemma jittered_coordinate:
  assumes "in_uniform (- 0.01) 0.01 j"
  shows "\<bar>py_round (c + j) 6 - c\<bar> \<le> 0.0100005"
proof -
  from assms have j: "- (1 / 100) \<le> j" "j \<le> 1 / 100" by (simp_all add: in_uniform_def)
  from py_round6_near [of "c + j"] j have "\<bar>py_round (c + j) 6 - c\<bar> \<le> 20001 / 2000000"
    by linarith
  then show ?thesis by simp
qed

lemma inject_impossible_travel_length:
  assumes "inject_impossible_travel cs pairs cats df n_pairs ks draws uuids = Inr txns"
  shows "length txns = 2 * nat (min n_pairs (int (length df)))"
proof -
  from inject_impossible_travel_Inr [OF assms] obtain groups where
    t: "txns = concat groups" and lg: "length groups = nat (min n_pairs (int (length df)))"
    and g: "\<forall>i < length groups.
      travel_trial cs pairs cats (df ! ks i) (draws i) (uuids i) = Inr (groups ! i)"
    by blast
  have "\<forall>g \<in> set groups. length g = 2"
  proof
    fix x assume "x \<in> set groups"
    then obtain i where "i < length groups" "x = groups ! i" by (auto simp: in_set_conv_nth)
    with g have "travel_trial cs pairs cats (df ! ks i) (draws i) (uuids i) = Inr x" by simp
    from travel_trial_Inr [OF this] show "length x = 2" by auto
  qed
  from concat_pairs(1) [OF this] t lg show ?thesis by simp
qed

text \<open>Claim C6 (as amended). The impossible-travel injector runs \<^verbatim>\<open>min(n_pairs, len(users))\<close>
  trials, which are \<open>n_pairs\<close> trials when \<open>n_pairs\<close> is not negative and does not exceed the
  population size. Trial \<open>i\<close> takes a pair of the distant-pair catalog and emits exactly two
  records, at positions \<open>2 * i\<close> and \<open>2 * i + 1\<close> of the output, both for the sampled user,
  the first in the first city of the pair and the second in the second (city name, country,
  and the catalog's latitude and longitude moved by the drawn jitter and rounded to six
  decimals, hence within 0.0100005 of the catalog's), both flagged as fraud with the archetype
  \<^verbatim>\<open>impossible_travel\<close>; the second timestamp is the first plus the gap, which is between 2
  and 10 minutes, so the two are at most 10 minutes apart.\<close>

theorem C6_impossible_travel_pairs:
  assumes inj: "inject_impossible_travel cs pairs cats df n_pairs ks draws uuids = Inr txns"
    and valid: "\<forall>i < nat (min n_pairs (int (length df))). valid_travel_draw pairs cats (draws i)"
  shows "length txns = 2 * nat (min n_pairs (int (length df))) \<and>
         (n_pairs \<le> int (length df) \<longrightarrow> length txns = 2 * nat n_pairs) \<and>
         (\<forall>i < nat (min n_pairs (int (length df))).
            pairs ! td_pair (draws i) \<in> set pairs \<and>
            txn_user_id (txns ! (2 * i)) = user_id (df ! ks i) \<and>
            txn_user_id (txns ! (2 * i + 1)) = user_id (df ! ks i) \<and>
            city (txns ! (2 * i)) = c_city (cs ! fst (pairs ! td_pair (draws i))) \<and>
            city (txns ! (2 * i + 1)) = c_city (cs ! snd (pairs ! td_pair (draws i))) \<and>
            country (txns ! (2 * i)) = c_country (cs ! fst (pairs ! td_pair (draws i))) \<and>
            country (txns ! (2 * i + 1)) = c_country (cs ! snd (pairs ! td_pair (draws i))) \<and>
            latitude (txns ! (2 * i))
              = py_round (c_lat (cs ! fst (pairs ! td_pair (draws i))) + tr_jlat (td_rec (draws i) 0)) 6 \<and>
            longitude (txns ! (2 * i))
              = py_round (c_lon (cs ! fst (pairs ! td_pair (draws i))) + tr_jlon (td_rec (draws i) 0)) 6 \<and>
            latitude (txns ! (2 * i + 1))
              = py_round (c_lat (cs ! snd (pairs ! td_pair (draws i))) + tr_jlat (td_rec (draws i) 1)) 6 \<and>
            longitude (txns ! (2 * i + 1))
              = py_round (c_lon (cs ! snd (pairs ! td_pair (draws i))) + tr_jlon (td_rec (draws i) 1)) 6 \<and>
            \<bar>latitude (txns ! (2 * i)) - c_lat (cs ! fst (pairs ! td_pair (draws i)))\<bar> \<le> 0.0100005 \<and>
            \<bar>longitude (txns ! (2 * i)) - c_lon (cs ! fst (pairs ! td_pair (draws i)))\<bar> \<le> 0.0100005 \<and>
            \<bar>latitude (txns ! (2 * i + 1)) - c_lat (cs ! snd (pairs ! td_pair (draws i)))\<bar> \<le> 0.0100005 \<and>
            \<bar>longitude (txns ! (2 * i + 1)) - c_lon (cs ! snd (pairs ! td_pair (draws i)))\<bar> \<le> 0.0100005 \<and>
            is_fraud (txns ! (2 * i)) \<and> is_fraud (txns ! (2 * i + 1)) \<and>
            fraud_type (txns ! (2 * i)) = Some ''impossible_travel'' \<and>
            fraud_type (txns ! (2 * i + 1)) = Some ''impossible_travel'' \<and>
            timestamp (txns ! (2 * i + 1)) = timestamp (txns ! (2 * i)) + 60 * td_gap (draws i) \<and>
            2 \<le> td_gap (draws i) \<and> td_gap (draws i) \<le> 10 \<and>
            \<bar>timestamp (txns ! (2 * i + 1)) - timestamp (txns ! (2 * i))\<bar> \<le> 600)"
proof (intro conjI allI impI)
  let ?n = "nat (min n_pairs (int (length df)))"
  show len: "length txns = 2 * ?n" using inj by (rule inject_impossible_travel_length)
  { assume "n_pairs \<le> int (length df)"
    with len show "length txns = 2 * nat n_pairs" by (simp add: min_def) }
  fix i assume i: "i < ?n"
  from inject_impossible_travel_Inr [OF inj] obtain groups where
    t: "txns = concat groups" and lg: "length groups = ?n"
    and g: "\<forall>i < length groups.
      travel_trial cs pairs cats (df ! ks i) (draws i) (uuids i) = Inr (groups ! i)"
    by blast
  have two: "\<forall>g \<in> set groups. length g = 2"
  proof
    fix x assume "x \<in> set groups"
    then obtain j where "j < length groups" "x = groups ! j" by (auto simp: in_set_conv_nth)
    with g have "travel_trial cs pairs cats (df ! ks j) (draws j) (uuids j) = Inr x" by simp
    from travel_trial_Inr [OF this] show "length x = 2" by auto
  qed
  from i lg have ig: "i < length groups" by simp
  with g have trial: "travel_trial cs pairs cats (df ! ks i) (draws i) (uuids i) = Inr (groups ! i)"
    by simp
  let ?p = "pairs ! td_pair (draws i)"
  from travel_trial_Inr [OF trial] obtain a b where ab: "groups ! i = [a, b]"
    and ra: "travel_record cats (df ! ks i) (start_date + td_secs (draws i)) (td_gap (draws i)) 0
           (cs ! fst ?p) (td_rec (draws i) 0) (uuids i 0) = Inr a"
    and rb: "travel_record cats (df ! ks i) (start_date + td_secs (draws i)) (td_gap (draws i)) 1
           (cs ! snd ?p) (td_rec (draws i) 1) (uuids i 1) = Inr b"
    by blast
  from concat_pairs(2) [OF two ig] ab t
  have ta: "txns ! (2 * i) = a" and tb: "txns ! (2 * i + 1) = b" by simp_all
  from valid i have v: "valid_travel_draw pairs cats (draws i)" by simp
  then have gap: "2 \<le> td_gap (draws i)" "td_gap (draws i) \<le> 10"
    and mem: "?p \<in> set pairs"
    and ja: "in_uniform (- 0.01) 0.01 (tr_jlat (td_rec (draws i) 0))"
      "in_uniform (- 0.01) 0.01 (tr_jlon (td_rec (draws i) 0))"
    and jb: "in_uniform (- 0.01) 0.01 (tr_jlat (td_rec (draws i) 1))"
      "in_uniform (- 0.01) 0.01 (tr_jlon (td_rec (draws i) 1))"
    by (simp_all add: valid_travel_draw_def valid_travel_rec_draw_def in_randint_def in_choice_def)
  note A = travel_record_Inr [OF ra] and B = travel_record_Inr [OF rb]
  show "?p \<in> set pairs" by (rule mem)
  show "txn_user_id (txns ! (2 * i)) = user_id (df ! ks i)" unfolding ta by (rule A)
  show "txn_user_id (txns ! (2 * i + 1)) = user_id (df ! ks i)" unfolding tb by (rule B)
  show "city (txns ! (2 * i)) = c_city (cs ! fst ?p)" unfolding ta by (rule A)
  show "city (txns ! (2 * i + 1)) = c_city (cs ! snd ?p)" unfolding tb by (rule B)
  show "country (txns ! (2 * i)) = c_country (cs ! fst ?p)" unfolding ta by (rule A)
  show "country (txns ! (2 * i + 1)) = c_country (cs ! snd ?p)" unfolding tb by (rule B)
  show la: "latitude (txns ! (2 * i))
      = py_round (c_lat (cs ! fst ?p) + tr_jlat (td_rec (draws i) 0)) 6" unfolding ta by (rule A)
  show lo: "longitude (txns ! (2 * i))
      = py_round (c_lon (cs ! fst ?p) + tr_jlon (td_rec (draws i) 0)) 6" unfolding ta by (rule A)
  show lb: "latitude (txns ! (2 * i + 1))
      = py_round (c_lat (cs ! snd ?p) + tr_jlat (td_rec (draws i) 1)) 6" unfolding tb by (rule B)
  show lob: "longitude (txns ! (2 * i + 1))
      = py_round (c_lon (cs ! snd ?p) + tr_jlon (td_rec (draws i) 1)) 6" unfolding tb by (rule B)
  show "\<bar>latitude (txns ! (2 * i)) - c_lat (cs ! fst ?p)\<bar> \<le> 0.0100005"
    unfolding la using ja(1) by (rule jittered_coordinate)
  show "\<bar>longitude (txns ! (2 * i)) - c_lon (cs ! fst ?p)\<bar> \<le> 0.0100005"
    unfolding lo using ja(2) by (rule jittered_coordinate)
  show "\<bar>latitude (txns ! (2 * i + 1)) - c_lat (cs ! snd ?p)\<bar> \<le> 0.0100005"
    unfolding lb using jb(1) by (rule jittered_coordinate)
  show "\<bar>longitude (txns ! (2 * i + 1)) - c_lon (cs ! snd ?p)\<bar> \<le> 0.0100005"
    unfolding lob using jb(2) by (rule jittered_coordinate)
  show "is_fraud (txns ! (2 * i))" unfolding ta by (rule A)
  show "is_fraud (txns ! (2 * i + 1))" unfolding tb by (rule B)
  show "fraud_type (txns ! (2 * i)) = Some ''impossible_travel''" unfolding ta by (rule A)
  show "fraud_type (txns ! (2 * i + 1)) = Some ''impossible_travel''" unfolding tb by (rule B)
  show ts: "timestamp (txns ! (2 * i + 1)) = timestamp (txns ! (2 * i)) + 60 * td_gap (draws i)"
    unfolding ta tb using A(3) B(3) by simp
  show "2 \<le> td_gap (draws i)" "td_gap (draws i) \<le> 10" by (rule gap)+
  show "\<bar>timestamp (txns ! (2 * i + 1)) - timestamp (txns ! (2 * i))\<bar> \<le> 600"
    unfolding ts using gap by simp
qed

section \<open>Velocity bursts\<close>

lemma is_permutation_props:
  assumes "is_permutation n perm"
  shows "length perm = n" and "distinct perm" and "set perm = {..<n}"
proof -
  from assms have m: "mset perm = mset [0..<n]" by (simp add: is_permutation_def)
  then have "size (mset perm) = size (mset [0..<n])" by (rule arg_cong)
  then show "length perm = n" by simp
  from m have "distinct perm = distinct [0..<n]" by (rule mset_eq_imp_distinct_iff)
  then show "distinct perm" by simp
  from m have "set perm = set [0..<n]" by (rule mset_eq_setD)
  then show "set perm = {..<n}" by (simp add: atLeast0LessThan)
qed

lemma micro_record_fields:
  "txn_user_id (micro_record usr base_ts ci m uuid) = user_id usr"
  "timestamp (micro_record usr base_ts ci m uuid) = base_ts + md_secs m"
  "amount (micro_record usr base_ts ci m uuid) = py_round (md_amount m) 2"
  "is_fraud (micro_record usr base_ts ci m uuid)"
  "fraud_type (micro_record usr base_ts ci m uuid) = Some ''velocity_spike''"
  "transaction_id (micro_record usr base_ts ci m uuid) = uuid"
  by (simp_all add: micro_record_def Let_def)

text \<open>Claim C5. The output of the velocity-spike injector is the concatenation of one burst per
  sampled row; the sampled rows are pairwise distinct (so are the user identifiers, when the
  identifiers of the population are distinct); every burst has between 10 and 20 records, all
  with the identifier of its user and with a timestamp between 0 and 55 seconds after the
  base timestamp of the burst, so that any two records of a burst are less than 60 seconds
  apart.\<close>

theorem C5_velocity_bursts:
  assumes inj: "inject_velocity_spikes cs df n_users perm draws uuids = Inr txns"
    and perm: "is_permutation (length df) perm"
    and valid: "\<forall>j < nat (min n_users (int (length df))). valid_burst_draw cs (draws j)"
  shows "\<exists>bursts. txns = concat bursts \<and>
           length bursts = nat (min n_users (int (length df))) \<and>
           distinct (take (length bursts) perm) \<and>
           (distinct (map user_id df) \<longrightarrow>
              distinct (map (\<lambda>j. user_id (df ! (perm ! j))) [0..<length bursts])) \<and>
           (\<forall>j < length bursts.
              perm ! j < length df \<and>
              10 \<le> length (bursts ! j) \<and> length (bursts ! j) \<le> 20 \<and>
              (\<forall>t \<in> set (bursts ! j).
                 txn_user_id t = user_id (df ! (perm ! j)) \<and>
                 0 \<le> timestamp t - (start_date + bd_secs (draws j)) \<and>
                 timestamp t - (start_date + bd_secs (draws j)) \<le> 55) \<and>
              (\<forall>t \<in> set (bursts ! j). \<forall>t' \<in> set (bursts ! j).
                 \<bar>timestamp t - timestamp t'\<bar> < 60))"
proof -
  let ?n = "nat (min n_users (int (length df)))"
  from inject_velocity_spikes_Inr [OF inj] obtain bursts where
    t: "txns = concat bursts" and n0: "0 \<le> min n_users (int (length df))"
    and lb: "length bursts = length (take ?n perm)"
    and b: "\<forall>j < length bursts.
      velocity_burst cs (df ! (perm ! j)) (draws j) (uuids j) = Inr (bursts ! j)"
    by blast
  note P = is_permutation_props [OF perm]
  from lb P(1) have len: "length bursts = ?n" by simp
  have dist: "distinct (take (length bursts) perm)" using P(2) by simp
  have rows: "\<forall>j < length bursts. perm ! j < length df"
  proof (intro allI impI)
    fix j assume "j < length bursts"
    with len P(1) have "j < length perm" by simp
    then have "perm ! j \<in> set perm" by simp
    with P(3) show "perm ! j < length df" by simp
  qed
  have ids: "distinct (map user_id df) \<longrightarrow>
      distinct (map (\<lambda>j. user_id (df ! (perm ! j))) [0..<length bursts])"
  proof
    assume d: "distinct (map user_id df)"
    have "inj_on (\<lambda>j. user_id (df ! (perm ! j))) (set [0..<length bursts])"
    proof (rule inj_onI)
      fix j k assume j: "j \<in> set [0..<length bursts]" and k: "k \<in> set [0..<length bursts]"
        and e: "user_id (df ! (perm ! j)) = user_id (df ! (perm ! k))"
      from j k rows have r: "perm ! j < length df" "perm ! k < length df" by simp_all
      with e have "map user_id df ! (perm ! j) = map user_id df ! (perm ! k)" by simp
      with d r have "perm ! j = perm ! k"
        by (metis length_map nth_eq_iff_index_eq)
      moreover from j k len P(1) have "j < length perm" "k < length perm" by simp_all
      ultimately show "j = k" using P(2) by (simp add: nth_eq_iff_index_eq)
    qed
    then show "distinct (map (\<lambda>j. user_id (df ! (perm ! j))) [0..<length bursts])"
      by (simp add: distinct_map)
  qed
  have each: "\<forall>j < length bursts.
              perm ! j < length df \<and>
              10 \<le> length (bursts ! j) \<and> length (bursts ! j) \<le> 20 \<and>
              (\<forall>t \<in> set (bursts ! j).
                 txn_user_id t = user_id (df ! (perm ! j)) \<and>
                 0 \<le> timestamp t - (start_date + bd_secs (draws j)) \<and>
                 timestamp t - (start_date + bd_secs (draws j)) \<le> 55) \<and>
              (\<forall>t \<in> set (bursts ! j). \<forall>t' \<in> set (bursts ! j).
                 \<bar>timestamp t - timestamp t'\<bar> < 60)"
  proof (intro allI impI)
    fix j assume j: "j < length bursts"
    let ?d = "draws j"
    let ?base = "start_date + bd_secs ?d"
    from j b have "velocity_burst cs (df ! (perm ! j)) ?d (uuids j) = Inr (bursts ! j)" by simp
    from velocity_burst_Inr(2) [OF this]
    have bj: "bursts ! j = map (\<lambda>i. micro_record (df ! (perm ! j)) ?base (cs ! bd_city ?d)
                (bd_micro ?d i) (uuids j i)) (range_py (bd_n_micro ?d))" .
    from valid j len have v: "valid_burst_draw cs ?d" by simp
    then have nm: "10 \<le> bd_n_micro ?d" "bd_n_micro ?d \<le> 20"
      and micro: "\<forall>i \<in> set (range_py (bd_n_micro ?d)). valid_micro_draw (bd_micro ?d i)"
      by (simp_all add: valid_burst_draw_def in_randint_def)
    have size: "10 \<le> length (bursts ! j)" "length (bursts ! j) \<le> 20"
      unfolding bj using nm by simp_all
    have win: "\<forall>t \<in> set (bursts ! j).
                 txn_user_id t = user_id (df ! (perm ! j)) \<and>
                 0 \<le> timestamp t - ?base \<and> timestamp t - ?base \<le> 55"
    proof
      fix t assume "t \<in> set (bursts ! j)"
      then obtain i where i: "i \<in> set (range_py (bd_n_micro ?d))"
        and t: "t = micro_record (df ! (perm ! j)) ?base (cs ! bd_city ?d) (bd_micro ?d i) (uuids j i)"
        unfolding bj by auto
      from micro i have "0 \<le> md_secs (bd_micro ?d i)" "md_secs (bd_micro ?d i) \<le> 55"
        by (simp_all add: valid_micro_draw_def in_randint_def)
      then show "txn_user_id t = user_id (df ! (perm ! j)) \<and>
                 0 \<le> timestamp t - ?base \<and> timestamp t - ?base \<le> 55"
        unfolding t by (simp add: micro_record_fields)
    qed
    have pw: "\<forall>t \<in> set (bursts ! j). \<forall>t' \<in> set (bursts ! j). \<bar>timestamp t - timestamp t'\<bar> < 60"
    proof (intro ballI)
      fix t t' assume "t \<in> set (bursts ! j)" "t' \<in> set (bursts ! j)"
      with win have "0 \<le> timestamp t - ?base" "timestamp t - ?base \<le> 55"
        "0 \<le> timestamp t' - ?base" "timestamp t' - ?base \<le> 55" by simp_all
      then show "\<bar>timestamp t - timestamp t'\<bar> < 60" by linarith
    qed
    from rows j have r: "perm ! j < length df" by simp
    from r size win pw show "perm ! j < length df \<and>
              10 \<le> length (bursts ! j) \<and> length (bursts ! j) \<le> 20 \<and>
              (\<forall>t \<in> set (bursts ! j).
                 txn_user_id t = user_id (df ! (perm ! j)) \<and>
                 0 \<le> timestamp t - (start_date + bd_secs (draws j)) \<and>
                 timestamp t - (start_date + bd_secs (draws j)) \<le> 55) \<and>
              (\<forall>t \<in> set (bursts ! j). \<forall>t' \<in> set (bursts ! j).
                 \<bar>timestamp t - timestamp t'\<bar> < 60)"
      by (intro conjI)
  qed
  show ?thesis
  proof (intro exI conjI)
    show "txns = concat bursts" by (rule t)
    show "length bursts = ?n" by (rule len)
    show "distinct (take (length bursts) perm)" by (rule dist)
    show "distinct (map user_id df) \<longrightarrow>
      distinct (map (\<lambda>j. user_id (df ! (perm ! j))) [0..<length bursts])" by (rule ids)
    show "\<forall>j < length bursts.
              perm ! j < length df \<and>
              10 \<le> length (bursts ! j) \<and> length (bursts ! j) \<le> 20 \<and>
              (\<forall>t \<in> set (bursts ! j).
                 txn_user_id t = user_id (df ! (perm ! j)) \<and>
                 0 \<le> timestamp t - (start_date + bd_secs (draws j)) \<and>
                 timestamp t - (start_date + bd_secs (draws j)) \<le> 55) \<and>
              (\<forall>t \<in> set (bursts ! j). \<forall>t' \<in> set (bursts ! j).
                 \<bar>timestamp t - timestamp t'\<bar> < 60)" by (rule each)
  qed
qed

section \<open>Amounts and fraud tags\<close>

text \<open>Claim C7. Every record of the legitimate sampler and of the three injectors has an amount
  of at least 0.01; its fraud flag is set exactly when its archetype tag is one of the three
  recognized values; and a record that is not flagged has no tag.\<close>

theorem C7_amount_floor_and_fraud_tag:
  assumes legit: "generate_legitimate_transactions cats df n_l ldraws luuids = Inr legit"
    and impossible: "inject_impossible_travel cs pairs cats df n_p pks pdraws puuids = Inr impossible"
    and pvalid: "\<forall>i < nat (min n_p (int (length df))). valid_travel_draw pairs cats (pdraws i)"
    and velocity: "inject_velocity_spikes cs df n_v perm vdraws vuuids = Inr velocity"
    and vvalid: "\<forall>j < nat (min n_v (int (length df))). valid_burst_draw cs (vdraws j)"
    and drift: "inject_behavioral_drift df n_d dks ddraws duuids = Inr drift"
  shows "\<forall>t \<in> set (legit @ impossible @ velocity @ drift).
           0.01 \<le> amount t \<and>
           (is_fraud t \<longleftrightarrow> fraud_type t \<in> recognized_archetypes) \<and>
           (\<not> is_fraud t \<longrightarrow> fraud_type t = None)"
proof -
  have L: "0.50 \<le> amount t \<and> \<not> is_fraud t \<and> fraud_type t = None" if "t \<in> set legit" for t
  proof -
    from that obtain i where i: "i < length legit" and t: "t = legit ! i"
      by (auto simp: in_set_conv_nth)
    from i have "i < nat n_l" using generate_legitimate_transactions_Inr(1) [OF legit] by simp
    with legit have "legit_row cats df (ldraws i) (luuids i) = Inr (legit ! i)"
      by (rule generate_legitimate_transactions_Inr)
    from legit_row_Inr(4,6,7) [OF this] show ?thesis unfolding t by simp
  qed
  have I: "10 \<le> amount t \<and> is_fraud t \<and> fraud_type t = Some ''impossible_travel''"
    if "t \<in> set impossible" for t
  proof -
    from inject_impossible_travel_Inr [OF impossible] obtain groups where
      c: "impossible = concat groups"
      and lg: "length groups = nat (min n_p (int (length df)))"
      and g: "\<forall>i < length groups.
        travel_trial cs pairs cats (df ! pks i) (pdraws i) (puuids i) = Inr (groups ! i)"
      by blast
    from that c obtain x where "x \<in> set groups" and tx: "t \<in> set x" by auto
    then obtain i where i: "i < length groups" and x: "x = groups ! i"
      by (auto simp: in_set_conv_nth)
    from g i have "travel_trial cs pairs cats (df ! pks i) (pdraws i) (puuids i) = Inr (groups ! i)"
      by simp
    from travel_trial_Inr [OF this] obtain a b where ab: "groups ! i = [a, b]"
      and ra: "travel_record cats (df ! pks i) (start_date + td_secs (pdraws i)) (td_gap (pdraws i)) 0
             (cs ! fst (pairs ! td_pair (pdraws i))) (td_rec (pdraws i) 0) (puuids i 0) = Inr a"
      and rb: "travel_record cats (df ! pks i) (start_date + td_secs (pdraws i)) (td_gap (pdraws i)) 1
             (cs ! snd (pairs ! td_pair (pdraws i))) (td_rec (pdraws i) 1) (puuids i 1) = Inr b"
      by blast
    from tx x ab have "t = a \<or> t = b" by simp
    with ra rb obtain idx cty where
      idx: "idx = 0 \<or> idx = 1"
      and r: "travel_record cats (df ! pks i) (start_date + td_secs (pdraws i)) (td_gap (pdraws i)) idx
          cty (td_rec (pdraws i) idx) (puuids i idx) = Inr t"
      by blast
    from pvalid i lg have "valid_travel_draw pairs cats (pdraws i)" by simp
    with idx have "10 \<le> tr_amount (td_rec (pdraws i) idx)"
      by (auto simp: valid_travel_draw_def valid_travel_rec_draw_def in_uniform_def)
    then have "10 \<le> py_round (tr_amount (td_rec (pdraws i) idx)) 2" by (rule py_round2_ge_10)
    with travel_record_Inr(4,7,8) [OF r] show ?thesis by simp
  qed
  have V: "0.01 \<le> amount t \<and> is_fraud t \<and> fraud_type t = Some ''velocity_spike''"
    if "t \<in> set velocity" for t
  proof -
    from inject_velocity_spikes_Inr [OF velocity] obtain bursts where
      c: "velocity = concat bursts"
      and lb: "length bursts = length (take (nat (min n_v (int (length df)))) perm)"
      and b: "\<forall>j < length bursts.
        velocity_burst cs (df ! (perm ! j)) (vdraws j) (vuuids j) = Inr (bursts ! j)"
      by blast
    from that c obtain x where "x \<in> set bursts" and tx: "t \<in> set x" by auto
    then obtain j where j: "j < length bursts" and tj: "t \<in> set (bursts ! j)"
      by (auto simp: in_set_conv_nth)
    from b j have "velocity_burst cs (df ! (perm ! j)) (vdraws j) (vuuids j) = Inr (bursts ! j)"
      by simp
    from velocity_burst_Inr(2) [OF this] tj obtain i where
      i: "i \<in> set (range_py (bd_n_micro (vdraws j)))"
      and t: "t = micro_record (df ! (perm ! j)) (start_date + bd_secs (vdraws j))
                (cs ! bd_city (vdraws j)) (bd_micro (vdraws j) i) (vuuids j i)"
      by auto
    from j lb have "j < nat (min n_v (int (length df)))" by simp
    with vvalid have "valid_burst_draw cs (vdraws j)" by simp
    with i have "0.01 \<le> md_amount (bd_micro (vdraws j) i)"
      by (simp add: valid_burst_draw_def valid_micro_draw_def in_uniform_def)
    then have "0.01 \<le> py_round (md_amount (bd_micro (vdraws j) i)) 2" by (rule py_round2_ge_cent)
    then show ?thesis unfolding t by (simp add: micro_record_fields)
  qed
  have D: "500 \<le> amount t \<and> is_fraud t \<and> fraud_type t = Some ''behavioral_drift''"
    if "t \<in> set drift" for t
  proof -
    from that obtain i where i: "i < length drift" and t: "t = drift ! i"
      by (auto simp: in_set_conv_nth)
    from drift i have "drift_row (df ! dks i) (ddraws i) (duuids i) = Inr (drift ! i)"
      by (rule inject_behavioral_drift_Inr)
    from drift_row_Inr(2,4,5) [OF this] show ?thesis unfolding t by simp
  qed
  show ?thesis
  proof
    fix t assume "t \<in> set (legit @ impossible @ velocity @ drift)"
    then consider "t \<in> set legit" | "t \<in> set impossible" | "t \<in> set velocity" | "t \<in> set drift"
      by auto
    then show "0.01 \<le> amount t \<and>
           (is_fraud t \<longleftrightarrow> fraud_type t \<in> recognized_archetypes) \<and>
           (\<not> is_fraud t \<longrightarrow> fraud_type t = None)"
    proof cases
      case 1
      from L [OF this] show ?thesis by (simp add: recognized_archetypes_def)
    next
      case 2
      from I [OF this] show ?thesis by (simp add: recognized_archetypes_def)
    next
      case 3
      from V [OF this] show ?thesis by (simp add: recognized_archetypes_def)
    next
      case 4
      from D [OF this] show ?thesis by (simp add: recognized_archetypes_def)
    qed
  qed
qed

section \<open>When the generators return\<close>

lemma list_all_upt: "list_all P [0..<n] \<longleftrightarrow> (\<forall>i < n. P i)"
  by (auto simp: list_all_iff)

lemma mapE_enumerate_returns:
  assumes "\<And>i. i < length xs \<Longrightarrow> \<exists>y. f i (xs ! i) = Inr y"
  shows "\<exists>ys. mapE (\<lambda>(i, x). f i x) (enumerate 0 xs) = Inr ys"
proof (rule mapE_returns)
  fix p assume "p \<in> set (enumerate 0 xs)"
  then obtain i where "i < length xs" "p = (i, xs ! i)"
    by (auto simp: in_set_conv_nth nth_enumerate_eq)
  with assms show "\<exists>y. (case p of (i, x) \<Rightarrow> f i x) = Inr y" by simp
qed

lemma generate_legitimate_transactions_returns:
  assumes "cats \<noteq> []"
    and "\<forall>i < nat n. ld_user (draws i) < length df"
    and "\<forall>u \<in> set df. 0 \<le> std_amount u"
  shows "\<exists>txns. generate_legitimate_transactions cats df n draws uuids = Inr txns"
  unfolding generate_legitimate_transactions_def
proof (rule mapE_returns)
  fix i assume "i \<in> set (range_py n)"
  then have i: "i < nat n" by (simp add: range_py_def)
  with assms(2) have k: "ld_user (draws i) < length df" by simp
  then have "df \<noteq> []" by auto
  moreover from k assms(3) have "0 \<le> std_amount (df ! ld_user (draws i))" by simp
  ultimately show "\<exists>t. legit_row cats df (draws i) (uuids i) = Inr t"
    using assms(1) by (intro legit_row_returns)
qed

lemma inject_impossible_travel_returns:
  assumes "0 \<le> n_pairs" and "cats \<noteq> []"
    and "\<forall>p \<in> set pairs. fst p < length cs \<and> snd p < length cs"
    and "\<forall>i < nat (min n_pairs (int (length df))). td_pair (draws i) < length pairs"
  shows "\<exists>txns. inject_impossible_travel cs pairs cats df n_pairs ks draws uuids = Inr txns"
proof -
  let ?n = "min n_pairs (int (length df))"
  from assms(1) have "0 \<le> ?n" "df \<noteq> [] \<or> ?n = 0" by auto
  then obtain s where s: "sample_replace df ?n ks = Inr s"
    using sample_replace_returns by blast
  then have ls: "length s = nat ?n" by (rule sample_replace_Inr)
  have "\<exists>groups. mapE (\<lambda>(i, usr). travel_trial cs pairs cats usr (draws i) (uuids i))
          (enumerate 0 s) = Inr groups"
  proof (rule mapE_enumerate_returns)
    fix i assume "i < length s"
    with ls assms(4) have k: "td_pair (draws i) < length pairs" by simp
    then have "pairs ! td_pair (draws i) \<in> set pairs" "pairs \<noteq> []" by auto
    with assms(2,3)
    show "\<exists>g. travel_trial cs pairs cats (s ! i) (draws i) (uuids i) = Inr g"
      by (intro travel_trial_returns) simp_all
  qed
  with s show ?thesis by (auto simp: inject_impossible_travel_def)
qed

lemma sample_no_replace_returns:
  "0 \<le> n \<Longrightarrow> n \<le> int (length df) \<Longrightarrow> \<exists>s. sample_no_replace df n perm = Inr s"
  by (simp add: sample_no_replace_def)

lemma inject_velocity_spikes_returns:
  assumes "0 \<le> n_users" and "cs \<noteq> []"
  shows "\<exists>txns. inject_velocity_spikes cs df n_users perm draws uuids = Inr txns"
proof -
  let ?n = "min n_users (int (length df))"
  from assms(1) have "0 \<le> ?n" "?n \<le> int (length df)" by auto
  then obtain s where s: "sample_no_replace df ?n perm = Inr s"
    using sample_no_replace_returns by blast
  have "\<exists>bursts. mapE (\<lambda>(i, usr). velocity_burst cs usr (draws i) (uuids i))
          (enumerate 0 s) = Inr bursts"
    by (rule mapE_enumerate_returns) (rule velocity_burst_returns [OF assms(2)])
  with s show ?thesis by (auto simp: inject_velocity_spikes_def)
qed

lemma inject_behavioral_drift_returns:
  assumes "0 \<le> n_txns"
  shows "\<exists>txns. inject_behavioral_drift df n_txns ks draws uuids = Inr txns"
proof -
  let ?n = "min n_txns (int (length df))"
  from assms have "0 \<le> ?n" "df \<noteq> [] \<or> ?n = 0" by auto
  then obtain s where s: "sample_replace df ?n ks = Inr s"
    using sample_replace_returns by blast
  have "\<exists>txns. mapE (\<lambda>(i, usr). drift_row usr (draws i) (uuids i)) (enumerate 0 s) = Inr txns"
    by (rule mapE_enumerate_returns) (rule drift_row_returns)
  with s show ?thesis by (auto simp: inject_behavioral_drift_def)
qed

lemma generate_streams_Inr:
  "generate_streams cfg dr uu = Inr (users, legit, impossible, velocity, drift) \<longleftrightarrow>
     generate_user_profiles (cities cfg) (num_users cfg) (dr_profiles dr) = Inr users \<and>
     generate_legitimate_transactions (merchant_categories cfg) users (num_transactions cfg)
       (dr_legit dr) (uu_legit uu) = Inr legit \<and>
     inject_impossible_travel (cities cfg) (distant_pairs cfg) (merchant_categories cfg) users
       (fraud_impossible_travel cfg) (dr_travel_sample dr) (dr_travel dr) (uu_travel uu)
       = Inr impossible \<and>
     inject_velocity_spikes (cities cfg) users (fraud_velocity_spike_users cfg)
       (dr_velocity_sample dr) (dr_velocity dr) (uu_velocity uu) = Inr velocity \<and>
     inject_behavioral_drift users (fraud_behavioral_drift cfg)
       (dr_drift_sample dr) (dr_drift dr) (uu_drift uu) = Inr drift"
  by (auto simp: generate_streams_def split: sum.splits)

lemma length_concat_bursts:
  assumes "\<forall>j < length bursts. length (bursts ! j) = f j"
  shows "length (concat bursts) = sum_list (map f [0..<length bursts])"
proof -
  have "map length bursts = map f [0..<length bursts]"
    using assms by (intro nth_equalityI) simp_all
  then show ?thesis by (simp add: length_concat)
qed

lemma streams_lengths:
  assumes gen: "generate_streams cfg dr uu = Inr (users, legit, impossible, velocity, drift)"
    and perm: "is_permutation (n_population cfg) (dr_velocity_sample dr)"
  shows "length users = n_population cfg"
    and "length legit = nat (num_transactions cfg)"
    and "length impossible = 2 * n_trials cfg"
    and "length velocity = burst_sizes cfg dr"
    and "length drift = n_drifts cfg"
proof -
  from gen have up: "generate_user_profiles (cities cfg) (num_users cfg) (dr_profiles dr) = Inr users"
    and lg: "generate_legitimate_transactions (merchant_categories cfg) users (num_transactions cfg)
       (dr_legit dr) (uu_legit uu) = Inr legit"
    and imp: "inject_impossible_travel (cities cfg) (distant_pairs cfg) (merchant_categories cfg)
       users (fraud_impossible_travel cfg) (dr_travel_sample dr) (dr_travel dr) (uu_travel uu)
       = Inr impossible"
    and vel: "inject_velocity_spikes (cities cfg) users (fraud_velocity_spike_users cfg)
       (dr_velocity_sample dr) (dr_velocity dr) (uu_velocity uu) = Inr velocity"
    and dri: "inject_behavioral_drift users (fraud_behavioral_drift cfg)
       (dr_drift_sample dr) (dr_drift dr) (uu_drift uu) = Inr drift"
    by (simp_all add: generate_streams_Inr)
  from generate_user_profiles_Inr(1) [OF up] show lu: "length users = n_population cfg"
    by (simp add: n_population_def)
  from generate_legitimate_transactions_Inr(1) [OF lg]
  show "length legit = nat (num_transactions cfg)" .
  from inject_impossible_travel_Inr [OF imp] obtain groups where
    c: "impossible = concat groups"
    and lgr: "length groups = nat (min (fraud_impossible_travel cfg) (int (length users)))"
    and g: "\<forall>i < length groups. travel_trial (cities cfg) (distant_pairs cfg) (merchant_categories cfg)
        (users ! dr_travel_sample dr i) (dr_travel dr i) (uu_travel uu i) = Inr (groups ! i)"
    by blast
  have "\<forall>x \<in> set groups. length x = 2"
  proof
    fix x assume "x \<in> set groups"
    then obtain i where "i < length groups" "x = groups ! i" by (auto simp: in_set_conv_nth)
    with g have "travel_trial (cities cfg) (distant_pairs cfg) (merchant_categories cfg)
        (users ! dr_travel_sample dr i) (dr_travel dr i) (uu_travel uu i) = Inr x" by simp
    from travel_trial_Inr [OF this] show "length x = 2" by auto
  qed
  from concat_pairs(1) [OF this] c lgr lu show "length impossible = 2 * n_trials cfg"
    by (simp add: n_trials_def)
  from inject_velocity_spikes_Inr [OF vel] obtain bursts where
    cv: "velocity = concat bursts"
    and lb: "length bursts = length (take (nat (min (fraud_velocity_spike_users cfg) (int (length users))))
               (dr_velocity_sample dr))"
    and b: "\<forall>j < length bursts. velocity_burst (cities cfg) (users ! (dr_velocity_sample dr ! j))
               (dr_velocity dr j) (uu_velocity uu j) = Inr (bursts ! j)"
    by blast
  from lb lu is_permutation_props(1) [OF perm] have lb': "length bursts = n_bursts cfg"
    by (simp add: n_bursts_def)
  have "\<forall>j < length bursts. length (bursts ! j) = nat (bd_n_micro (dr_velocity dr j))"
  proof (intro allI impI)
    fix j assume "j < length bursts"
    with b have "velocity_burst (cities cfg) (users ! (dr_velocity_sample dr ! j))
               (dr_velocity dr j) (uu_velocity uu j) = Inr (bursts ! j)" by simp
    from velocity_burst_Inr(2) [OF this]
    show "length (bursts ! j) = nat (bd_n_micro (dr_velocity dr j))" by simp
  qed
  from length_concat_bursts [OF this] cv lb' show "length velocity = burst_sizes cfg dr"
    by (simp add: burst_sizes_def)
  from inject_behavioral_drift_Inr(2) [OF dri] lu show "length drift = n_drifts cfg"
    by (simp add: n_drifts_def)
qed

section \<open>The assembler\<close>

lemma shuffle_mset:
  assumes "is_permutation (length xs) perm"
  shows "mset (shuffle xs perm) = mset xs"
proof -
  have "mset (shuffle xs perm) = image_mset (\<lambda>i. xs ! i) (mset perm)"
    by (simp add: shuffle_def)
  also have "\<dots> = image_mset (\<lambda>i. xs ! i) (mset [0..<length xs])"
    using assms by (simp add: is_permutation_def)
  also have "\<dots> = mset (map (\<lambda>i. xs ! i) [0..<length xs])" by simp
  also have "\<dots> = mset xs" by (simp add: map_nth)
  finally show ?thesis .
qed

lemma shuffle_length: "length (shuffle xs perm) = length perm"
  by (simp add: shuffle_def)

lemma assemble_Inr:
  assumes "is_permutation (length xs) perm" and "xs \<noteq> []"
  shows "assemble xs perm = Inr (sort_values (shuffle xs perm))"
proof -
  from shuffle_mset [OF assms(1)] assms(2) have "shuffle xs perm \<noteq> []" by auto
  then show ?thesis by (simp add: assemble_def Let_def)
qed

lemma assemble_empty: "assemble xs [] = Inl KeyError"
  by (simp add: assemble_def shuffle_def)

lemma keys_of_sort_values:
  assumes "mset ys = mset xs"
  shows "map sort_key_of (sort_values ys) = map sort_key_of (sort_values xs)"
proof -
  have "sort (map sort_key_of xs) = map sort_key_of (sort_values ys)"
    by (rule properties_for_sort) (simp_all add: sort_values_def assms)
  moreover have "sort (map sort_key_of xs) = map sort_key_of (sort_values xs)"
    by (rule properties_for_sort) (simp_all add: sort_values_def)
  ultimately show ?thesis by simp
qed

lemma filter_key_singleton:
  assumes "distinct (map f xs)" and "k \<in> set xs"
  shows "filter (\<lambda>x. f k = f x) xs = [k]"
  using assms
proof (induction xs)
  case Nil
  then show ?case by simp
next
  case (Cons a xs)
  show ?case
  proof (cases "k = a")
    case True
    from Cons.prems(1) have "\<forall>x \<in> set xs. f a \<noteq> f x" by auto
    then have "filter (\<lambda>x. f a = f x) xs = []" by (simp add: filter_empty_conv)
    with True show ?thesis by simp
  next
    case False
    with Cons.prems have k: "k \<in> set xs" and d: "distinct (map f xs)"
      and "f a \<notin> f ` set xs" by auto
    with k have "f k \<noteq> f a" by (metis imageI)
    with Cons.IH [OF d k] show ?thesis by simp
  qed
qed

lemma sort_values_distinct_keys:
  assumes m: "mset ys = mset xs" and d: "distinct (map sort_key_of xs)"
  shows "sort_values ys = sort_values xs"
proof -
  let ?zs = "sort_values ys"
  have mz: "mset ?zs = mset xs" using m by (simp add: sort_values_def)
  have "mset (map sort_key_of ?zs) = mset (map sort_key_of xs)"
    using mz by (metis mset_map)
  with d have dz: "distinct (map sort_key_of ?zs)" by (metis mset_eq_imp_distinct_iff)
  have "sort_key sort_key_of xs = ?zs"
  proof (rule properties_for_sort_key)
    show "mset ?zs = mset xs" by (rule mz)
    show "sorted (map sort_key_of ?zs)" by (simp add: sort_values_def)
    fix k assume k: "k \<in> set ?zs"
    then have kx: "k \<in> set xs" using mz by (metis mset_eq_setD)
    from filter_key_singleton [OF dz k] filter_key_singleton [OF d kx]
    show "filter (\<lambda>x. sort_key_of k = sort_key_of x) ?zs
        = filter (\<lambda>x. sort_key_of k = sort_key_of x) xs" by simp
  qed
  then show ?thesis by (simp add: sort_values_def)
qed

text \<open>Claim C2 (as amended). For a non-empty list of records and any permutation applied by the
  shuffle, the assembler returns a list with the same multiset of records, sorted ascending by
  (user identifier, timestamp); the sequence of keys of the output does not depend on the
  permutation; the records that share a key stand in the output in the order the shuffle gave
  them; and when no two records share both user and timestamp the output itself does not
  depend on the permutation.\<close>

theorem C2_assembler_preserves_records:
  assumes perm: "is_permutation (length all_txns) perm" and ne: "all_txns \<noteq> []"
  shows "\<exists>out. assemble all_txns perm = Inr out \<and>
           mset out = mset all_txns \<and>
           sorted (map sort_key_of out) \<and>
           map sort_key_of out = map sort_key_of (sort_values all_txns) \<and>
           (\<forall>k. filter (\<lambda>t. sort_key_of t = k) out
                  = filter (\<lambda>t. sort_key_of t = k) (shuffle all_txns perm)) \<and>
           (distinct (map sort_key_of all_txns) \<longrightarrow> out = sort_values all_txns)"
proof (intro exI conjI impI allI)
  show "assemble all_txns perm = Inr (sort_values (shuffle all_txns perm))"
    using perm ne by (rule assemble_Inr)
  show "mset (sort_values (shuffle all_txns perm)) = mset all_txns"
    using shuffle_mset [OF perm] by (simp add: sort_values_def)
  show "sorted (map sort_key_of (sort_values (shuffle all_txns perm)))"
    by (simp add: sort_values_def)
  show "map sort_key_of (sort_values (shuffle all_txns perm))
      = map sort_key_of (sort_values all_txns)"
    using shuffle_mset [OF perm] by (rule keys_of_sort_values)
  show "filter (\<lambda>t. sort_key_of t = k) (sort_values (shuffle all_txns perm))
      = filter (\<lambda>t. sort_key_of t = k) (shuffle all_txns perm)" for k
    unfolding sort_values_def by (rule sort_key_stable)
  assume "distinct (map sort_key_of all_txns)"
  with shuffle_mset [OF perm] show "sort_values (shuffle all_txns perm) = sort_values all_txns"
    by (rule sort_values_distinct_keys)
qed

lemma is_permutation_eval:
  "is_permutation 1 [0]" "is_permutation 2 [0, 1]" "is_permutation 2 [1, 0]"
  by (simp_all add: is_permutation_def upt_rec)

text \<open>Witness for C2: two records with one key, swapped by the shuffle and left so by the
  sort.\<close>

theorem C2_assembler_preserves_records_witness:
  "\<exists>out. assemble [tie_txn ''a1'' 1, tie_txn ''b2'' 2] [1, 0] = Inr out \<and>
     mset out = mset [tie_txn ''a1'' 1, tie_txn ''b2'' 2] \<and>
     sorted (map sort_key_of out) \<and>
     filter (\<lambda>t. sort_key_of t = (''USR-000000'', 5007)) out
       = [tie_txn ''b2'' 2, tie_txn ''a1'' 1]"
proof -
  have "is_permutation 2 [1, 0]" by (rule is_permutation_eval)
  then have "is_permutation (length [tie_txn ''a1'' 1, tie_txn ''b2'' 2]) [1, 0]"
    by (simp only: list.size One_nat_def add_Suc_right add_0_right numeral_2_eq_2)
  from C2_assembler_preserves_records [OF this] obtain out where
    o: "assemble [tie_txn ''a1'' 1, tie_txn ''b2'' 2] [1, 0] = Inr out"
    "mset out = mset [tie_txn ''a1'' 1, tie_txn ''b2'' 2]"
    "sorted (map sort_key_of out)"
    and ties: "\<forall>k. filter (\<lambda>t. sort_key_of t = k) out
      = filter (\<lambda>t. sort_key_of t = k) (shuffle [tie_txn ''a1'' 1, tie_txn ''b2'' 2] [1, 0])"
    by blast
  have "filter (\<lambda>t. sort_key_of t = (''USR-000000'', 5007))
          (shuffle [tie_txn ''a1'' 1, tie_txn ''b2'' 2] [1, 0])
      = [tie_txn ''b2'' 2, tie_txn ''a1'' 1]"
    by (simp add: shuffle_def sort_key_of_def tie_txn_def)
  with ties have "filter (\<lambda>t. sort_key_of t = (''USR-000000'', 5007)) out
      = [tie_txn ''b2'' 2, tie_txn ''a1'' 1]" by simp
  with o show ?thesis by blast
qed

text \<open>Counterexample to C2 as stated: two records of one user with one timestamp and
  different amounts come out in the order the shuffle left them in. (And an empty collection
  gives no output at all: the frame has no \<^verbatim>\<open>timestamp\<close> column to read.)\<close>

theorem C2_shuffle_changes_order_of_ties_counterexample:
  "is_permutation 2 [1, 0] \<and>
   sort_key_of (tie_txn ''a1'' 1) = sort_key_of (tie_txn ''b2'' 2) \<and>
   assemble [tie_txn ''a1'' 1, tie_txn ''b2'' 2] [1, 0] = Inr [tie_txn ''b2'' 2, tie_txn ''a1'' 1] \<and>
   assemble [tie_txn ''a1'' 1, tie_txn ''b2'' 2] [0, 1] = Inr [tie_txn ''a1'' 1, tie_txn ''b2'' 2] \<and>
   [tie_txn ''b2'' 2, tie_txn ''a1'' 1] \<noteq> [tie_txn ''a1'' 1, tie_txn ''b2'' 2] \<and>
   is_permutation 0 [] \<and> assemble [] [] = Inl KeyError"
proof (intro conjI)
  show "is_permutation 0 []" by (simp add: is_permutation_def)
  show "assemble [] [] = Inl KeyError" by (rule assemble_empty)
  show "is_permutation 2 [1, 0]" by (rule is_permutation_eval)
  show "sort_key_of (tie_txn ''a1'' 1) = sort_key_of (tie_txn ''b2'' 2)"
    by (simp add: sort_key_of_def tie_txn_def)
  show "assemble [tie_txn ''a1'' 1, tie_txn ''b2'' 2] [1, 0]
      = Inr [tie_txn ''b2'' 2, tie_txn ''a1'' 1]"
    by (simp add: assemble_def shuffle_def sort_values_def sort_key_of_def tie_txn_def Let_def)
  show "assemble [tie_txn ''a1'' 1, tie_txn ''b2'' 2] [0, 1]
      = Inr [tie_txn ''a1'' 1, tie_txn ''b2'' 2]"
    by (simp add: assemble_def shuffle_def sort_values_def sort_key_of_def tie_txn_def Let_def)
  show "[tie_txn ''b2'' 2, tie_txn ''a1'' 1] \<noteq> [tie_txn ''a1'' 1, tie_txn ''b2'' 2]"
    by (simp add: tie_txn_def)
qed

section \<open>Whole runs\<close>

lemma valid_draws_unfold:
  assumes "valid_draws cfg dr"
  shows "\<forall>i < n_population cfg. valid_profile_draw (cities cfg) (dr_profiles dr i)"
    and "\<forall>i < nat (num_transactions cfg).
           valid_legit_draw (merchant_categories cfg) (n_population cfg) (dr_legit dr i)"
    and "\<forall>i < n_trials cfg. in_sample (n_population cfg) (dr_travel_sample dr i) \<and>
           valid_travel_draw (distant_pairs cfg) (merchant_categories cfg) (dr_travel dr i)"
    and "is_permutation (n_population cfg) (dr_velocity_sample dr)"
    and "\<forall>j < n_bursts cfg. valid_burst_draw (cities cfg) (dr_velocity dr j)"
    and "\<forall>i < n_drifts cfg. in_sample (n_population cfg) (dr_drift_sample dr i) \<and>
           valid_drift_draw (dr_drift dr i)"
    and "is_permutation (total_records cfg dr) (dr_shuffle dr)"
  using assms by (simp_all add: valid_draws_def list_all_upt)

lemma main_with_Inr:
  assumes "generate_streams cfg dr uu = Inr (users, legit, impossible, velocity, drift)"
  shows "main_with cfg dr uu = assemble (legit @ impossible @ velocity @ drift) (dr_shuffle dr)"
  using assms by (simp add: main_with_def)

lemma main_with_Inl:
  "generate_streams cfg dr uu = Inl e \<Longrightarrow> main_with cfg dr uu = Inl e"
  by (simp add: main_with_def)

lemma main_with_returns:
  assumes cities: "cities cfg \<noteq> []" and cats: "merchant_categories cfg \<noteq> []"
    and pairs: "\<forall>p \<in> set (distant_pairs cfg).
                  fst p < length (cities cfg) \<and> snd p < length (cities cfg)"
    and counts: "0 \<le> fraud_impossible_travel cfg" "0 \<le> fraud_velocity_spike_users cfg"
      "0 \<le> fraud_behavioral_drift cfg"
    and valid: "valid_draws cfg dr"
    and some: "0 < total_records cfg dr"
  shows "\<exists>users legit impossible velocity drift.
           generate_streams cfg dr uu = Inr (users, legit, impossible, velocity, drift) \<and>
           main_with cfg dr uu
             = Inr (sort_values (shuffle (legit @ impossible @ velocity @ drift) (dr_shuffle dr))) \<and>
           length (legit @ impossible @ velocity @ drift) = total_records cfg dr"
proof -
  note V = valid_draws_unfold [OF valid]
  from cities obtain users where
    up: "generate_user_profiles (cities cfg) (num_users cfg) (dr_profiles dr) = Inr users"
    using generate_user_profiles_returns by blast
  from generate_user_profiles_Inr(1) [OF up] have lu: "length users = n_population cfg"
    by (simp add: n_population_def)
  have std: "\<forall>u \<in> set users. 0 \<le> std_amount u"
  proof
    fix u assume "u \<in> set users"
    then obtain i where i: "i < length users" and u: "u = users ! i"
      by (auto simp: in_set_conv_nth)
    from i lu V(1) have "valid_profile_draw (cities cfg) (dr_profiles dr i)" by simp
    from generated_profile_bounds(3) [OF up i this] u show "0 \<le> std_amount u" by simp
  qed
  have "\<forall>i < nat (num_transactions cfg). ld_user (dr_legit dr i) < length users"
    using V(2) lu by (simp add: valid_legit_draw_def in_sample_def)
  with cats std obtain legit where
    lg: "generate_legitimate_transactions (merchant_categories cfg) users (num_transactions cfg)
       (dr_legit dr) (uu_legit uu) = Inr legit"
    using generate_legitimate_transactions_returns by blast
  have "\<forall>i < nat (min (fraud_impossible_travel cfg) (int (length users))).
      td_pair (dr_travel dr i) < length (distant_pairs cfg)"
    using V(3) lu by (simp add: n_trials_def valid_travel_draw_def in_choice_def)
  with counts(1) cats pairs obtain impossible where
    imp: "inject_impossible_travel (cities cfg) (distant_pairs cfg) (merchant_categories cfg)
       users (fraud_impossible_travel cfg) (dr_travel_sample dr) (dr_travel dr) (uu_travel uu)
       = Inr impossible"
    using inject_impossible_travel_returns by blast
  from counts(2) cities obtain velocity where
    vel: "inject_velocity_spikes (cities cfg) users (fraud_velocity_spike_users cfg)
       (dr_velocity_sample dr) (dr_velocity dr) (uu_velocity uu) = Inr velocity"
    using inject_velocity_spikes_returns by blast
  from counts(3) obtain drift where
    dri: "inject_behavioral_drift users (fraud_behavioral_drift cfg)
       (dr_drift_sample dr) (dr_drift dr) (uu_drift uu) = Inr drift"
    using inject_behavioral_drift_returns by blast
  from up lg imp vel dri
  have gen: "generate_streams cfg dr uu = Inr (users, legit, impossible, velocity, drift)"
    by (simp add: generate_streams_Inr)
  note L = streams_lengths [OF gen V(4)]
  let ?all = "legit @ impossible @ velocity @ drift"
  from L have len: "length ?all = total_records cfg dr" by (simp add: total_records_def)
  with some have ne: "?all \<noteq> []" by auto
  from V(7) len have "is_permutation (length ?all) (dr_shuffle dr)" by simp
  from assemble_Inr [OF this ne] main_with_Inr [OF gen]
  have "main_with cfg dr uu = Inr (sort_values (shuffle ?all (dr_shuffle dr)))" by simp
  with gen len show ?thesis by blast
qed

lemma length_sort_values: "length (sort_values xs) = length xs"
  by (simp add: sort_values_def)

lemma valid_config_unfold:
  assumes "valid_config cfg"
  shows "cities cfg \<noteq> []" and "distant_pairs cfg \<noteq> []" and "merchant_categories cfg \<noteq> []"
    and "\<forall>p \<in> set (distant_pairs cfg). fst p < length (cities cfg) \<and> snd p < length (cities cfg)"
    and "0 < num_users cfg" and "0 < num_transactions cfg"
    and "0 < fraud_impossible_travel cfg" and "0 < fraud_velocity_spike_users cfg"
    and "0 < fraud_behavioral_drift cfg"
  using assms by (simp_all add: valid_config_def list_all_iff)

lemma main_with_valid:
  assumes cfg: "valid_config cfg" and valid: "valid_draws cfg dr"
  shows "\<exists>users legit impossible velocity drift.
           generate_streams cfg dr uu = Inr (users, legit, impossible, velocity, drift) \<and>
           main_with cfg dr uu
             = Inr (sort_values (shuffle (legit @ impossible @ velocity @ drift) (dr_shuffle dr))) \<and>
           length (legit @ impossible @ velocity @ drift) = total_records cfg dr"
proof (rule main_with_returns)
  note C = valid_config_unfold [OF cfg]
  show "cities cfg \<noteq> []" "merchant_categories cfg \<noteq> []"
    "\<forall>p \<in> set (distant_pairs cfg). fst p < length (cities cfg) \<and> snd p < length (cities cfg)"
    by (rule C)+
  show "0 \<le> fraud_impossible_travel cfg" "0 \<le> fraud_velocity_spike_users cfg"
    "0 \<le> fraud_behavioral_drift cfg"
    using C(7,8,9) by simp_all
  show "valid_draws cfg dr" by (rule valid)
  from C(6) show "0 < total_records cfg dr" by (simp add: total_records_def)
qed

text \<open>Claim C4 (as amended). For a valid configuration and draws in range the run returns; the
  impossible-travel injector contributes two records for each of \<^verbatim>\<open>min(P, N)\<close> trials, the
  velocity injector the sum of the sizes of \<^verbatim>\<open>min(U, N)\<close> bursts, each between 10 and 20,
  the drift injector \<^verbatim>\<open>min(D, N)\<close> records and the legitimate sampler \<open>M\<close>; the output has
  as many records as the four streams together. When \<open>P\<close>, \<open>U\<close> and \<open>D\<close> do not exceed the
  population size \<open>N\<close>, these are \<open>2 * P\<close> records, \<open>U\<close> bursts and \<open>D\<close> records.\<close>

theorem C4_total_record_count:
  assumes cfg: "valid_config cfg" and valid: "valid_draws cfg dr"
  shows "\<exists>users legit impossible velocity drift out.
           generate_streams cfg dr uu = Inr (users, legit, impossible, velocity, drift) \<and>
           main_with cfg dr uu = Inr out \<and>
           length legit = nat (num_transactions cfg) \<and>
           length impossible = 2 * n_trials cfg \<and>
           length velocity = burst_sizes cfg dr \<and>
           length drift = n_drifts cfg \<and>
           length out = nat (num_transactions cfg) + 2 * n_trials cfg + burst_sizes cfg dr
                          + n_drifts cfg \<and>
           (\<forall>j < n_bursts cfg. 10 \<le> bd_n_micro (dr_velocity dr j) \<and>
                                bd_n_micro (dr_velocity dr j) \<le> 20) \<and>
           (fraud_impossible_travel cfg \<le> num_users cfg \<longrightarrow>
              n_trials cfg = nat (fraud_impossible_travel cfg)) \<and>
           (fraud_velocity_spike_users cfg \<le> num_users cfg \<longrightarrow>
              n_bursts cfg = nat (fraud_velocity_spike_users cfg)) \<and>
           (fraud_behavioral_drift cfg \<le> num_users cfg \<longrightarrow>
              n_drifts cfg = nat (fraud_behavioral_drift cfg))"
proof -
  from main_with_valid [OF cfg valid] obtain users legit impossible velocity drift where
    gen: "generate_streams cfg dr uu = Inr (users, legit, impossible, velocity, drift)"
    and out: "main_with cfg dr uu
      = Inr (sort_values (shuffle (legit @ impossible @ velocity @ drift) (dr_shuffle dr)))"
    and len: "length (legit @ impossible @ velocity @ drift) = total_records cfg dr"
    by blast
  note V = valid_draws_unfold [OF valid]
  note L = streams_lengths [OF gen V(4)]
  let ?out = "sort_values (shuffle (legit @ impossible @ velocity @ drift) (dr_shuffle dr))"
  have "length ?out = length (dr_shuffle dr)"
    by (simp add: length_sort_values shuffle_length)
  also have "\<dots> = total_records cfg dr" using is_permutation_props(1) [OF V(7)] .
  finally have lo: "length ?out = nat (num_transactions cfg) + 2 * n_trials cfg
      + burst_sizes cfg dr + n_drifts cfg"
    by (simp add: total_records_def)
  have sizes: "\<forall>j < n_bursts cfg. 10 \<le> bd_n_micro (dr_velocity dr j) \<and>
                                bd_n_micro (dr_velocity dr j) \<le> 20"
    using V(5) by (simp add: valid_burst_draw_def in_randint_def)
  from valid_config_unfold(5) [OF cfg]
  have caps: "(fraud_impossible_travel cfg \<le> num_users cfg \<longrightarrow>
              n_trials cfg = nat (fraud_impossible_travel cfg)) \<and>
           (fraud_velocity_spike_users cfg \<le> num_users cfg \<longrightarrow>
              n_bursts cfg = nat (fraud_velocity_spike_users cfg)) \<and>
           (fraud_behavioral_drift cfg \<le> num_users cfg \<longrightarrow>
              n_drifts cfg = nat (fraud_behavioral_drift cfg))"
    by (simp add: n_trials_def n_bursts_def n_drifts_def n_population_def min_def)
  from gen out L(2,3,4,5) lo sizes caps show ?thesis by blast
qed







section \<open>Runs that differ in their identifiers only\<close>

lemma erase_id_fields [simp]:
  "txn_user_id (erase_id t) = txn_user_id t" "timestamp (erase_id t) = timestamp t"
  "amount (erase_id t) = amount t" "fraud_type (erase_id t) = fraud_type t"
  "is_fraud (erase_id t) = is_fraud t" "sort_key_of (erase_id t) = sort_key_of t"
  by (simp_all add: erase_id_def sort_key_of_def)

lemma same_modulo_ids_cases:
  fixes r1 r2 :: "error + txn list"
  assumes "map_sum id (map erase_id) r1 = map_sum id (map erase_id) r2"
  obtains e where "r1 = Inl e" "r2 = Inl e"
  | a b where "r1 = Inr a" "r2 = Inr b" "map erase_id a = map erase_id b"
  using assms by (cases r1; cases r2) auto

lemma mapE_same_modulo:
  assumes "\<And>x. x \<in> set xs \<Longrightarrow> map_sum id g (f1 x) = map_sum id g (f2 x)"
  shows "map_sum id (map g) (mapE f1 xs) = map_sum id (map g) (mapE f2 xs)"
  using assms
proof (induction xs)
  case Nil
  then show ?case by simp
next
  case (Cons x xs)
  have hd: "map_sum id g (f1 x) = map_sum id g (f2 x)" by (rule Cons.prems) simp
  have tl: "map_sum id (map g) (mapE f1 xs) = map_sum id (map g) (mapE f2 xs)"
    by (rule Cons.IH) (rule Cons.prems, simp)
  show ?case
  proof (cases "f1 x")
    case (Inl e)
    with hd have "f2 x = Inl e" by (cases "f2 x") auto
    with Inl show ?thesis by simp
  next
    case (Inr y)
    with hd obtain y' where y': "f2 x = Inr y'" "g y = g y'" by (cases "f2 x") auto
    show ?thesis
    proof (cases "mapE f1 xs")
      case (Inl e)
      with tl have "mapE f2 xs = Inl e" by (cases "mapE f2 xs") auto
      with Inl Inr y' show ?thesis by simp
    next
      case r: (Inr ys)
      with tl obtain ys' where "mapE f2 xs = Inr ys'" "map g ys = map g ys'"
        by (cases "mapE f2 xs") auto
      with r Inr y' show ?thesis by simp
    qed
  qed
qed

lemma legit_row_erase:
  "map_sum id erase_id (legit_row cats df d u1) = map_sum id erase_id (legit_row cats df d u2)"
  by (simp add: legit_row_def Let_def erase_id_def split: sum.splits)

lemma travel_record_erase:
  "map_sum id erase_id (travel_record cats usr base gap idx cty r u1)
     = map_sum id erase_id (travel_record cats usr base gap idx cty r u2)"
  by (simp add: travel_record_def Let_def erase_id_def split: sum.splits)

lemma drift_row_erase:
  "map_sum id erase_id (drift_row usr d u1) = map_sum id erase_id (drift_row usr d u2)"
  by (simp add: drift_row_def Let_def erase_id_def split: sum.splits)

lemma micro_record_erase:
  "erase_id (micro_record usr base ci m u1) = erase_id (micro_record usr base ci m u2)"
  by (simp add: micro_record_def Let_def erase_id_def)

lemma generate_legitimate_transactions_erase:
  "map_sum id (map erase_id) (generate_legitimate_transactions cats df n draws u1)
     = map_sum id (map erase_id) (generate_legitimate_transactions cats df n draws u2)"
  unfolding generate_legitimate_transactions_def
  by (rule mapE_same_modulo) (rule legit_row_erase)

lemma travel_trial_erase:
  "map_sum id (map erase_id) (travel_trial cs pairs cats usr d u1)
     = map_sum id (map erase_id) (travel_trial cs pairs cats usr d u2)"
proof -
  have *: "map_sum id (map erase_id)
          (mapE (\<lambda>(idx, cty). travel_record cats usr b g idx cty (td_rec d idx) (u1 idx)) xs)
      = map_sum id (map erase_id)
          (mapE (\<lambda>(idx, cty). travel_record cats usr b g idx cty (td_rec d idx) (u2 idx)) xs)"
    for b g xs
    by (rule mapE_same_modulo) (auto simp: travel_record_erase)
  show ?thesis
  proof (cases "choice pairs (td_pair d)")
    case (Inl e)
    then show ?thesis by (simp add: travel_trial_def)
  next
    case pair: (Inr pair)
    show ?thesis
    proof (cases "index cs (fst pair)")
      case (Inl e)
      with pair show ?thesis by (simp add: travel_trial_def)
    next
      case a: (Inr city_a)
      show ?thesis
      proof (cases "index cs (snd pair)")
        case (Inl e)
        with pair a show ?thesis by (simp add: travel_trial_def)
      next
        case b: (Inr city_b)
        with pair a show ?thesis
          by (simp add: travel_trial_def Let_def * del: mapE.simps)
      qed
    qed
  qed
qed

lemma concat_same_modulo:
  assumes "map_sum id (map (map erase_id)) r1 = map_sum id (map (map erase_id)) r2"
  shows "map_sum id (map erase_id) (case r1 of Inl e \<Rightarrow> Inl e | Inr gs \<Rightarrow> Inr (concat gs))
       = map_sum id (map erase_id) (case r2 of Inl e \<Rightarrow> Inl e | Inr gs \<Rightarrow> Inr (concat gs))"
proof (cases r1)
  case (Inl e)
  with assms have "r2 = Inl e" by (cases r2) auto
  with Inl show ?thesis by simp
next
  case (Inr gs)
  with assms obtain gs' where g: "r2 = Inr gs'" "map (map erase_id) gs = map (map erase_id) gs'"
    by (cases r2) auto
  from g(2) have "concat (map (map erase_id) gs) = concat (map (map erase_id) gs')" by simp
  then have "map erase_id (concat gs) = map erase_id (concat gs')" by (simp add: map_concat)
  with Inr g(1) show ?thesis by simp
qed

lemma inject_impossible_travel_erase:
  "map_sum id (map erase_id) (inject_impossible_travel cs pairs cats df n ks draws u1)
     = map_sum id (map erase_id) (inject_impossible_travel cs pairs cats df n ks draws u2)"
proof (cases "sample_replace df (min n (int (length df))) ks")
  case (Inl e)
  then show ?thesis by (simp add: inject_impossible_travel_def)
next
  case (Inr s)
  have "map_sum id (map (map erase_id))
          (mapE (\<lambda>(i, usr). travel_trial cs pairs cats usr (draws i) (u1 i)) (enumerate 0 s))
      = map_sum id (map (map erase_id))
          (mapE (\<lambda>(i, usr). travel_trial cs pairs cats usr (draws i) (u2 i)) (enumerate 0 s))"
    by (rule mapE_same_modulo) (auto simp: travel_trial_erase)
  from concat_same_modulo [OF this] Inr show ?thesis
    by (simp add: inject_impossible_travel_def)
qed

lemma velocity_burst_erase:
  "map_sum id (map erase_id) (velocity_burst cs usr d u1)
     = map_sum id (map erase_id) (velocity_burst cs usr d u2)"
  by (simp add: velocity_burst_def Let_def micro_record_erase [of _ _ _ _ "u1 _" "u2 _"]
      split: sum.splits)

lemma inject_velocity_spikes_erase:
  "map_sum id (map erase_id) (inject_velocity_spikes cs df n perm draws u1)
     = map_sum id (map erase_id) (inject_velocity_spikes cs df n perm draws u2)"
proof (cases "sample_no_replace df (min n (int (length df))) perm")
  case (Inl e)
  then show ?thesis by (simp add: inject_velocity_spikes_def)
next
  case (Inr s)
  have "map_sum id (map (map erase_id))
          (mapE (\<lambda>(i, usr). velocity_burst cs usr (draws i) (u1 i)) (enumerate 0 s))
      = map_sum id (map (map erase_id))
          (mapE (\<lambda>(i, usr). velocity_burst cs usr (draws i) (u2 i)) (enumerate 0 s))"
    by (rule mapE_same_modulo) (auto simp: velocity_burst_erase)
  from concat_same_modulo [OF this] Inr show ?thesis
    by (simp add: inject_velocity_spikes_def)
qed

lemma inject_behavioral_drift_erase:
  "map_sum id (map erase_id) (inject_behavioral_drift df n ks draws u1)
     = map_sum id (map erase_id) (inject_behavioral_drift df n ks draws u2)"
proof (cases "sample_replace df (min n (int (length df))) ks")
  case (Inl e)
  then show ?thesis by (simp add: inject_behavioral_drift_def)
next
  case (Inr s)
  have "map_sum id (map erase_id)
          (mapE (\<lambda>(i, usr). drift_row usr (draws i) (u1 i)) (enumerate 0 s))
      = map_sum id (map erase_id)
          (mapE (\<lambda>(i, usr). drift_row usr (draws i) (u2 i)) (enumerate 0 s))"
    by (rule mapE_same_modulo) (auto simp: drift_row_erase)
  with Inr show ?thesis by (simp add: inject_behavioral_drift_def)
qed

lemma insort_key_erase:
  "map erase_id (insort_key sort_key_of x xs)
     = insort_key sort_key_of (erase_id x) (map erase_id xs)"
  by (induction xs) simp_all

lemma sort_values_erase: "map erase_id (sort_values xs) = sort_values (map erase_id xs)"
  unfolding sort_values_def by (induction xs) (simp_all add: insort_key_erase)

lemma shuffle_erase:
  assumes "\<forall>i \<in> set perm. i < length xs"
  shows "map erase_id (shuffle xs perm) = shuffle (map erase_id xs) perm"
  using assms by (simp add: shuffle_def)

lemma assemble_erase:
  assumes e: "map erase_id xs = map erase_id ys" and p: "\<forall>i \<in> set perm. i < length xs"
  shows "map_sum id (map erase_id) (assemble xs perm) = map_sum id (map erase_id) (assemble ys perm)"
proof -
  from e have "length xs = length ys" by (rule map_eq_imp_length_eq)
  with p have p': "\<forall>i \<in> set perm. i < length ys" by simp
  have "map erase_id (sort_values (shuffle xs perm)) = sort_values (shuffle (map erase_id xs) perm)"
    by (simp add: sort_values_erase shuffle_erase [OF p])
  also have "\<dots> = map erase_id (sort_values (shuffle ys perm))"
    by (simp add: sort_values_erase shuffle_erase [OF p'] e)
  finally show ?thesis by (simp add: assemble_def Let_def shuffle_def)
qed

section \<open>Reproducibility\<close>

lemma generate_streams_same_modulo:
  obtains e where "generate_streams cfg dr u1 = Inl e" "generate_streams cfg dr u2 = Inl e"
  | users l1 i1 v1 d1 l2 i2 v2 d2 where
      "generate_streams cfg dr u1 = Inr (users, l1, i1, v1, d1)"
      "generate_streams cfg dr u2 = Inr (users, l2, i2, v2, d2)"
      "map erase_id l1 = map erase_id l2" "map erase_id i1 = map erase_id i2"
      "map erase_id v1 = map erase_id v2" "map erase_id d1 = map erase_id d2"
proof (cases "generate_user_profiles (cities cfg) (num_users cfg) (dr_profiles dr)")
  case (Inl e)
  then have "generate_streams cfg dr u1 = Inl e" "generate_streams cfg dr u2 = Inl e"
    by (simp_all add: generate_streams_def)
  then show ?thesis by (rule that(1))
next
  case users: (Inr users)
  from generate_legitimate_transactions_erase
    [of "merchant_categories cfg" users "num_transactions cfg" "dr_legit dr" "uu_legit u1" "uu_legit u2"]
  show ?thesis
  proof (cases rule: same_modulo_ids_cases)
    case (1 e)
    with users have "generate_streams cfg dr u1 = Inl e" "generate_streams cfg dr u2 = Inl e"
      by (simp_all add: generate_streams_def)
    then show ?thesis by (rule that(1))
  next
    case legit: (2 l1 l2)
    from inject_impossible_travel_erase
      [of "cities cfg" "distant_pairs cfg" "merchant_categories cfg" users
          "fraud_impossible_travel cfg" "dr_travel_sample dr" "dr_travel dr"
          "uu_travel u1" "uu_travel u2"]
    show ?thesis
    proof (cases rule: same_modulo_ids_cases)
      case (1 e)
      with users legit
      have "generate_streams cfg dr u1 = Inl e" "generate_streams cfg dr u2 = Inl e"
        by (simp_all add: generate_streams_def)
      then show ?thesis by (rule that(1))
    next
      case travel: (2 i1 i2)
      from inject_velocity_spikes_erase
        [of "cities cfg" users "fraud_velocity_spike_users cfg" "dr_velocity_sample dr"
            "dr_velocity dr" "uu_velocity u1" "uu_velocity u2"]
      show ?thesis
      proof (cases rule: same_modulo_ids_cases)
        case (1 e)
        with users legit travel
        have "generate_streams cfg dr u1 = Inl e" "generate_streams cfg dr u2 = Inl e"
          by (simp_all add: generate_streams_def)
        then show ?thesis by (rule that(1))
      next
        case velocity: (2 v1 v2)
        from inject_behavioral_drift_erase
          [of users "fraud_behavioral_drift cfg" "dr_drift_sample dr" "dr_drift dr"
              "uu_drift u1" "uu_drift u2"]
        show ?thesis
        proof (cases rule: same_modulo_ids_cases)
          case (1 e)
          with users legit travel velocity
          have "generate_streams cfg dr u1 = Inl e" "generate_streams cfg dr u2 = Inl e"
            by (simp_all add: generate_streams_def)
          then show ?thesis by (rule that(1))
        next
          case drift: (2 d1 d2)
          from users legit(1) travel(1) velocity(1) drift(1)
          have g1: "generate_streams cfg dr u1 = Inr (users, l1, i1, v1, d1)"
            by (simp add: generate_streams_Inr)
          from users legit(2) travel(2) velocity(2) drift(2)
          have g2: "generate_streams cfg dr u2 = Inr (users, l2, i2, v2, d2)"
            by (simp add: generate_streams_Inr)
          from g1 g2 legit(3) travel(3) velocity(3) drift(3) show ?thesis by (rule that(2))
        qed
      qed
    qed
  qed
qed

lemma count_fraud_erase:
  assumes "map erase_id xs = map erase_id ys"
  shows "length (filter is_fraud xs) = length (filter is_fraud ys)"
proof -
  have "map is_fraud xs = map (is_fraud \<circ> erase_id) xs" by simp
  also have "\<dots> = map is_fraud (map erase_id xs)" by simp
  also have "\<dots> = map is_fraud (map erase_id ys)" by (simp only: assms)
  also have "\<dots> = map is_fraud ys" by simp
  finally have "map is_fraud xs = map is_fraud ys" .
  then have "filter id (map is_fraud xs) = filter id (map is_fraud ys)" by simp
  then have "map is_fraud (filter is_fraud xs) = map is_fraud (filter is_fraud ys)"
    by (simp add: filter_map comp_def)
  then show ?thesis by (rule map_eq_imp_length_eq)
qed

lemma tuples_erase:
  assumes "map erase_id xs = map erase_id ys"
  shows "map (\<lambda>t. (txn_user_id t, timestamp t, amount t, fraud_type t)) xs
       = map (\<lambda>t. (txn_user_id t, timestamp t, amount t, fraud_type t)) ys"
proof -
  let ?f = "\<lambda>t. (txn_user_id t, timestamp t, amount t, fraud_type t)"
  have "map ?f xs = map ?f (map erase_id xs)" by (simp add: comp_def)
  also have "\<dots> = map ?f (map erase_id ys)" by (simp only: assms)
  also have "\<dots> = map ?f ys" by (simp add: comp_def)
  finally show ?thesis .
qed

text \<open>Claim C3. Two runs with the same configuration and the same seeded draws, whatever
  \<^verbatim>\<open>uuid4\<close> returns in each, end alike: either both raise the same exception, or both return
  lists that are equal, position by position, once the transaction identifiers are erased. So
  the lists of (user, timestamp, amount, archetype) tuples, the record counts and the fraud
  counts are equal.\<close>

theorem C3_same_draws_same_output:
  assumes vperm: "is_permutation (n_population cfg) (dr_velocity_sample dr)"
    and sperm: "is_permutation (total_records cfg dr) (dr_shuffle dr)"
  shows "map_sum id (map erase_id) (main_with cfg dr uu1)
           = map_sum id (map erase_id) (main_with cfg dr uu2) \<and>
         (\<forall>out1 out2. main_with cfg dr uu1 = Inr out1 \<and> main_with cfg dr uu2 = Inr out2 \<longrightarrow>
            map (\<lambda>t. (txn_user_id t, timestamp t, amount t, fraud_type t)) out1
              = map (\<lambda>t. (txn_user_id t, timestamp t, amount t, fraud_type t)) out2 \<and>
            length out1 = length out2 \<and>
            length (filter is_fraud out1) = length (filter is_fraud out2))"
proof -
  have main: "map_sum id (map erase_id) (main_with cfg dr uu1)
           = map_sum id (map erase_id) (main_with cfg dr uu2)"
  proof (cases rule: generate_streams_same_modulo [of cfg dr uu1 uu2])
    case (1 e)
    then show ?thesis by (simp add: main_with_Inl)
  next
    case (2 users l1 i1 v1 d1 l2 i2 v2 d2)
    let ?a1 = "l1 @ i1 @ v1 @ d1" and ?a2 = "l2 @ i2 @ v2 @ d2"
    from 2 have e: "map erase_id ?a1 = map erase_id ?a2" by simp
    from streams_lengths [OF 2(1) vperm] have "length ?a1 = total_records cfg dr"
      by (simp add: total_records_def)
    with is_permutation_props(3) [OF sperm]
    have "\<forall>i \<in> set (dr_shuffle dr). i < length ?a1" by simp
    from assemble_erase [OF e this] main_with_Inr [OF 2(1)] main_with_Inr [OF 2(2)]
    show ?thesis by simp
  qed
  have rest: "\<forall>out1 out2. main_with cfg dr uu1 = Inr out1 \<and> main_with cfg dr uu2 = Inr out2 \<longrightarrow>
            map (\<lambda>t. (txn_user_id t, timestamp t, amount t, fraud_type t)) out1
              = map (\<lambda>t. (txn_user_id t, timestamp t, amount t, fraud_type t)) out2 \<and>
            length out1 = length out2 \<and>
            length (filter is_fraud out1) = length (filter is_fraud out2)"
  proof (intro allI impI)
    fix out1 out2
    assume "main_with cfg dr uu1 = Inr out1 \<and> main_with cfg dr uu2 = Inr out2"
    with main have e: "map erase_id out1 = map erase_id out2" by simp
    from e have "length out1 = length out2" by (rule map_eq_imp_length_eq)
    with tuples_erase [OF e] count_fraud_erase [OF e]
    show "map (\<lambda>t. (txn_user_id t, timestamp t, amount t, fraud_type t)) out1
              = map (\<lambda>t. (txn_user_id t, timestamp t, amount t, fraud_type t)) out2 \<and>
            length out1 = length out2 \<and>
            length (filter is_fraud out1) = length (filter is_fraud out2)"
      by simp
  qed
  from main rest show ?thesis by (rule conjI)
qed

section \<open>The example runs, evaluated\<close>

lemmas round_eval = py_round_def round_half_even_def Let_def

lemma fmt_06d_eval:
  "fmt_06d 0 = ''000000''" "fmt_06d 1 = ''000001''"
  by (simp_all add: fmt_06d_def digits10.simps digit_char_def replicate_numeral)

lemma CITIES_facts: "CITIES \<noteq> []" "length CITIES = 20"
  "CITIES ! 0 = mk_city ''New York'' ''US'' 40.7128 (- 74.0060)"
  "CITIES ! 1 = mk_city ''London'' ''GB'' 51.5074 (- 0.1278)"
  "CITIES ! Suc 0 = mk_city ''London'' ''GB'' 51.5074 (- 0.1278)"
  "CITIES ! 2 = mk_city ''Tokyo'' ''JP'' 35.6762 139.6503"
  by (simp_all add: CITIES_def)

lemma range_py_eval:
  "range_py 0 = []" "range_py 1 = [0]" "range_py 2 = [0, 1]"
  "range_py 10 = [0, 1, 2, 3, 4, 5, 6, 7, 8, 9]"
  by (simp_all add: range_py_def upt_rec)

lemma generate_demo_users: "generate_user_profiles CITIES 2 demo_profile_draws = Inr demo_users"
  by (simp add: generate_user_profiles_def range_py_eval profile_row_def choice_def CITIES_facts
      mk_city_def demo_profile_draws_def demo_users_def demo_user_def round_eval)

lemma generate_tight_user: "generate_user_profiles CITIES 1 tight_profile_draws = Inr [tight_user]"
  by (simp add: generate_user_profiles_def range_py_eval profile_row_def choice_def CITIES_facts
      mk_city_def tight_profile_draws_def tight_user_def round_eval fmt_06d_eval)

lemma valid_demo_profile_draw: "valid_profile_draw CITIES (demo_profile_draws i)"
  by (simp add: valid_profile_draw_def demo_profile_draws_def in_choice_def in_uniform_def
      CITIES_facts)

text \<open>Witness for C8: two profiles from draws in range.\<close>

theorem C8_generate_user_profiles_witness:
  "generate_user_profiles CITIES 2 demo_profile_draws = Inr demo_users \<and>
   length demo_users = 2 \<and> distinct (map user_id demo_users) \<and>
   0.15 * avg_amount (demo_users ! 1) - 0.005 \<le> std_amount (demo_users ! 1) \<and>
   std_amount (demo_users ! 1) \<le> 0.40 * avg_amount (demo_users ! 1) + 0.005"
proof -
  have "\<forall>i < nat 2. valid_profile_draw CITIES (demo_profile_draws i)"
    by (simp add: valid_demo_profile_draw)
  from C8_generate_user_profiles [OF this] generate_demo_users show ?thesis by auto
qed

text \<open>Counterexample to C8 as stated: with the average draw 20.01 and the fraction draw
  0.15001, both strictly inside their ranges, the stored standard deviation is 3.00, which is
  below 0.15 times the stored average 20.01.\<close>

theorem C8_strict_fraction_counterexample:
  "valid_profile_draw CITIES (tight_profile_draws 0) \<and>
   generate_user_profiles CITIES 1 tight_profile_draws = Inr [tight_user] \<and>
   \<not> 0.15 * avg_amount tight_user < std_amount tight_user"
  by (simp add: generate_tight_user)
     (simp add: valid_profile_draw_def tight_profile_draws_def in_choice_def in_uniform_def
       CITIES_facts tight_user_def)

section \<open>Witnesses on the example population\<close>

lemma demo_users_facts: "length demo_users = 2" "demo_users \<noteq> []"
  "\<forall>u \<in> set demo_users. 0 \<le> std_amount u"
  "avg_amount (demo_users ! 0) = 400" "std_amount (demo_users ! 0) = 100"
  by (simp_all add: demo_users_def demo_user_def)

lemma catalog_facts: "MERCHANT_CATEGORIES \<noteq> []" "length MERCHANT_CATEGORIES = 15"
  "DISTANT_PAIRS \<noteq> []" "length DISTANT_PAIRS = 8" "DISTANT_PAIRS ! 0 = (0, 1)"
  "\<forall>p \<in> set DISTANT_PAIRS. fst p < length CITIES \<and> snd p < length CITIES"
  by (simp_all add: MERCHANT_CATEGORIES_def DISTANT_PAIRS_def CITIES_facts)

lemma valid_demo_legit_draw:
  "valid_legit_draw MERCHANT_CATEGORIES 2 (demo_legit_draws i)"
  "valid_legit_draw MERCHANT_CATEGORIES 2 (last_second_legit_draws i)"
  by (simp_all add: valid_legit_draw_def demo_legit_draws_def last_second_legit_draws_def
      in_sample_def in_uniform_def in_randint_def in_choice_def catalog_facts start_end_dates)

lemma valid_demo_travel_draw: "valid_travel_draw DISTANT_PAIRS MERCHANT_CATEGORIES (demo_travel_draws i)"
  by (simp add: valid_travel_draw_def valid_travel_rec_draw_def demo_travel_draws_def
      demo_travel_rec_def in_uniform_def in_randint_def in_choice_def catalog_facts start_end_dates)

lemma valid_demo_burst_draw: "valid_burst_draw CITIES (demo_burst_draws j)"
  by (simp add: valid_burst_draw_def valid_micro_draw_def demo_burst_draws_def demo_micro_def
      in_uniform_def in_randint_def in_choice_def CITIES_facts start_end_dates)

lemma valid_demo_drift_draw: "valid_drift_draw (demo_drift_draws i)"
  by (simp add: valid_drift_draw_def demo_drift_draws_def in_uniform_def in_randint_def
      in_choice_def DRIFT_CATEGORIES_def start_end_dates)

text \<open>Witness for C1: one drift record for the first of two generated users.\<close>

theorem C1_drift_amount_above_three_sigma_witness:
  "\<exists>txns. inject_behavioral_drift demo_users 1 first_row demo_drift_draws demo_uuid = Inr txns \<and>
     length txns = 1 \<and>
     avg_amount (demo_users ! 0) + 3 * std_amount (demo_users ! 0) < amount (txns ! 0)"
proof -
  obtain txns where
    inj: "inject_behavioral_drift demo_users 1 first_row demo_drift_draws demo_uuid = Inr txns"
    using inject_behavioral_drift_returns [of 1 demo_users first_row demo_drift_draws demo_uuid]
    by fastforce
  from inject_behavioral_drift_Inr(2) [OF inj] have len: "length txns = 1"
    by (simp add: demo_users_facts)
  have p: "\<forall>i < nat 2. valid_profile_draw CITIES (demo_profile_draws i)"
    by (simp add: valid_demo_profile_draw)
  have d: "\<forall>i < nat (min 1 (int (length demo_users))).
      in_sample (length demo_users) (first_row i) \<and> valid_drift_draw (demo_drift_draws i)"
    by (simp add: valid_demo_drift_draw in_sample_def first_row_def demo_users_facts)
  from C1_drift_amount_above_three_sigma [OF p generate_demo_users d inj] len
  have "avg_amount (demo_users ! first_row 0) + 3 * std_amount (demo_users ! first_row 0)
      < amount (txns ! 0)" by simp
  with inj len show ?thesis by (auto simp: first_row_def)
qed

text \<open>Witness for C10: one legitimate record.\<close>

theorem C10_legitimate_timestamps_in_window_witness:
  "\<exists>txns. generate_legitimate_transactions MERCHANT_CATEGORIES demo_users 1 demo_legit_draws demo_uuid
       = Inr txns \<and>
     length txns = 1 \<and> start_date \<le> timestamp (txns ! 0) \<and> timestamp (txns ! 0) \<le> end_date"
proof -
  obtain txns where gen:
    "generate_legitimate_transactions MERCHANT_CATEGORIES demo_users 1 demo_legit_draws demo_uuid
       = Inr txns"
    using generate_legitimate_transactions_returns
      [of MERCHANT_CATEGORIES 1 demo_legit_draws demo_users demo_uuid]
    by (auto simp: catalog_facts demo_users_facts demo_legit_draws_def)
  have "\<forall>i < nat 1. valid_legit_draw MERCHANT_CATEGORIES (length demo_users) (demo_legit_draws i)"
    by (simp add: valid_demo_legit_draw demo_users_facts)
  from C10_legitimate_timestamps_in_window [OF gen this] gen show ?thesis by auto
qed

lemma single_legit_timestamp:
  assumes "cats \<noteq> []" and "ld_user (draws 0) < length df" and "\<forall>u \<in> set df. 0 \<le> std_amount u"
  shows "map_sum id (map timestamp) (generate_legitimate_transactions cats df 1 draws uuids)
           = Inr [start_date + ld_secs (draws 0)]"
proof -
  from assms obtain txns where
    gen: "generate_legitimate_transactions cats df 1 draws uuids = Inr txns"
    using generate_legitimate_transactions_returns [of cats 1 draws df uuids] by auto
  from generate_legitimate_transactions_Inr(1) [OF gen] obtain t where t: "txns = [t]"
    by (auto simp: length_Suc_conv)
  from generate_legitimate_transactions_Inr(2) [OF gen, of 0] t
  have "legit_row cats df (draws 0) (uuids 0) = Inr t" by simp
  then have "timestamp t = start_date + ld_secs (draws 0)" by (rule legit_row_Inr)
  with gen t show ?thesis by simp
qed

text \<open>Counterexample to C10 as stated: \<^verbatim>\<open>randint(0, delta_seconds)\<close> includes both ends;
  the offset 0 gives a record at the window start and the offset \<open>delta_seconds\<close> a record
  at the window end, neither strictly inside the window.\<close>

theorem C10_window_ends_are_reached_counterexample:
  "valid_legit_draw MERCHANT_CATEGORIES (length demo_users) (demo_legit_draws 0) \<and>
   map_sum id (map timestamp)
     (generate_legitimate_transactions MERCHANT_CATEGORIES demo_users 1 demo_legit_draws demo_uuid)
     = Inr [start_date] \<and>
   valid_legit_draw MERCHANT_CATEGORIES (length demo_users) (last_second_legit_draws 0) \<and>
   map_sum id (map timestamp)
     (generate_legitimate_transactions MERCHANT_CATEGORIES demo_users 1 last_second_legit_draws
        demo_uuid)
     = Inr [end_date]"
proof (intro conjI)
  show "valid_legit_draw MERCHANT_CATEGORIES (length demo_users) (demo_legit_draws 0)"
    "valid_legit_draw MERCHANT_CATEGORIES (length demo_users) (last_second_legit_draws 0)"
    by (simp_all add: valid_demo_legit_draw demo_users_facts)
  have "map_sum id (map timestamp)
     (generate_legitimate_transactions MERCHANT_CATEGORIES demo_users 1 demo_legit_draws demo_uuid)
     = Inr [start_date + ld_secs (demo_legit_draws 0)]"
    by (rule single_legit_timestamp)
       (simp_all add: catalog_facts demo_users_facts demo_legit_draws_def)
  then show "map_sum id (map timestamp)
     (generate_legitimate_transactions MERCHANT_CATEGORIES demo_users 1 demo_legit_draws demo_uuid)
     = Inr [start_date]"
    by (simp add: demo_legit_draws_def)
  have "map_sum id (map timestamp)
     (generate_legitimate_transactions MERCHANT_CATEGORIES demo_users 1 last_second_legit_draws
        demo_uuid)
     = Inr [start_date + ld_secs (last_second_legit_draws 0)]"
    by (rule single_legit_timestamp)
       (simp_all add: catalog_facts demo_users_facts last_second_legit_draws_def)
  then show "map_sum id (map timestamp)
     (generate_legitimate_transactions MERCHANT_CATEGORIES demo_users 1 last_second_legit_draws
        demo_uuid)
     = Inr [end_date]"
    by (simp add: last_second_legit_draws_def start_end_dates)
qed

text \<open>Witness for C6: one trial on the pair New York, London with a gap of five minutes.\<close>

theorem C6_impossible_travel_pairs_witness:
  "\<exists>txns. inject_impossible_travel CITIES DISTANT_PAIRS MERCHANT_CATEGORIES demo_users 1 first_row
       demo_travel_draws demo_uuid2 = Inr txns \<and>
     length txns = 2 \<and>
     txn_user_id (txns ! 0) = txn_user_id (txns ! 1) \<and>
     city (txns ! 0) = ''New York'' \<and> city (txns ! 1) = ''London'' \<and>
     country (txns ! 0) = ''US'' \<and> country (txns ! 1) = ''GB'' \<and>
     \<bar>latitude (txns ! 1) - 51.5074\<bar> \<le> 0.0100005 \<and>
     timestamp (txns ! 1) = timestamp (txns ! 0) + 300"
proof -
  obtain txns where inj:
    "inject_impossible_travel CITIES DISTANT_PAIRS MERCHANT_CATEGORIES demo_users 1 first_row
       demo_travel_draws demo_uuid2 = Inr txns"
    using inject_impossible_travel_returns
      [of 1 MERCHANT_CATEGORIES DISTANT_PAIRS CITIES demo_users demo_travel_draws first_row demo_uuid2]
    by (auto simp: catalog_facts demo_travel_draws_def)
  have "\<forall>i < nat (min 1 (int (length demo_users))).
      valid_travel_draw DISTANT_PAIRS MERCHANT_CATEGORIES (demo_travel_draws i)"
    by (simp add: valid_demo_travel_draw)
  from C6_impossible_travel_pairs [OF inj this]
  have "length txns = 2 * nat (min 1 (int (length demo_users)))"
    and "\<forall>i < nat (min 1 (int (length demo_users))).
      txn_user_id (txns ! (2 * i)) = user_id (demo_users ! first_row i) \<and>
      txn_user_id (txns ! (2 * i + 1)) = user_id (demo_users ! first_row i) \<and>
      city (txns ! (2 * i)) = c_city (CITIES ! fst (DISTANT_PAIRS ! td_pair (demo_travel_draws i))) \<and>
      city (txns ! (2 * i + 1)) = c_city (CITIES ! snd (DISTANT_PAIRS ! td_pair (demo_travel_draws i))) \<and>
      country (txns ! (2 * i)) = c_country (CITIES ! fst (DISTANT_PAIRS ! td_pair (demo_travel_draws i))) \<and>
      country (txns ! (2 * i + 1)) = c_country (CITIES ! snd (DISTANT_PAIRS ! td_pair (demo_travel_draws i))) \<and>
      \<bar>latitude (txns ! (2 * i + 1)) - c_lat (CITIES ! snd (DISTANT_PAIRS ! td_pair (demo_travel_draws i)))\<bar>
        \<le> 0.0100005 \<and>
      timestamp (txns ! (2 * i + 1)) = timestamp (txns ! (2 * i)) + 60 * td_gap (demo_travel_draws i)"
    by blast+
  then have "length txns = 2 \<and>
     txn_user_id (txns ! 0) = txn_user_id (txns ! 1) \<and>
     city (txns ! 0) = ''New York'' \<and> city (txns ! 1) = ''London'' \<and>
     country (txns ! 0) = ''US'' \<and> country (txns ! 1) = ''GB'' \<and>
     \<bar>latitude (txns ! 1) - 51.5074\<bar> \<le> 0.0100005 \<and>
     timestamp (txns ! 1) = timestamp (txns ! 0) + 300"
    by (simp add: demo_users_facts demo_travel_draws_def catalog_facts CITIES_facts mk_city_def)
  with inj show ?thesis by blast
qed

text \<open>Counterexample to C6 as stated: with three pairs asked for on a population of two,
  the injector runs two trials and emits four records, not three trials and six records.\<close>

theorem C6_trials_capped_by_population_counterexample:
  "length demo_users = 2 \<and>
   valid_travel_draw DISTANT_PAIRS MERCHANT_CATEGORIES (demo_travel_draws 0) \<and>
   valid_travel_draw DISTANT_PAIRS MERCHANT_CATEGORIES (demo_travel_draws 1) \<and>
   valid_travel_draw DISTANT_PAIRS MERCHANT_CATEGORIES (demo_travel_draws 2) \<and>
   map_sum id length
     (inject_impossible_travel CITIES DISTANT_PAIRS MERCHANT_CATEGORIES demo_users 3 first_row
        demo_travel_draws demo_uuid2) = Inr 4 \<and>
   (4 :: nat) \<noteq> 2 * 3"
proof (intro conjI)
  show "length demo_users = 2" by (rule demo_users_facts)
  show "valid_travel_draw DISTANT_PAIRS MERCHANT_CATEGORIES (demo_travel_draws 0)"
    "valid_travel_draw DISTANT_PAIRS MERCHANT_CATEGORIES (demo_travel_draws 1)"
    "valid_travel_draw DISTANT_PAIRS MERCHANT_CATEGORIES (demo_travel_draws 2)"
    by (rule valid_demo_travel_draw)+
  obtain txns where inj:
    "inject_impossible_travel CITIES DISTANT_PAIRS MERCHANT_CATEGORIES demo_users 3 first_row
       demo_travel_draws demo_uuid2 = Inr txns"
    using inject_impossible_travel_returns
      [of 3 MERCHANT_CATEGORIES DISTANT_PAIRS CITIES demo_users demo_travel_draws first_row demo_uuid2]
    by (auto simp: catalog_facts demo_travel_draws_def)
  from inject_impossible_travel_length [OF inj] have "length txns = 4"
    by (simp add: demo_users_facts)
  with inj show "map_sum id length
     (inject_impossible_travel CITIES DISTANT_PAIRS MERCHANT_CATEGORIES demo_users 3 first_row
        demo_travel_draws demo_uuid2) = Inr 4" by simp
  show "(4 :: nat) \<noteq> 2 * 3" by simp
qed

text \<open>Witness for C5: one burst.\<close>

theorem C5_velocity_bursts_witness:
  "\<exists>txns bursts. inject_velocity_spikes CITIES demo_users 1 [1, 0] demo_burst_draws demo_uuid2
       = Inr txns \<and>
     txns = concat bursts \<and> length bursts = 1 \<and>
     10 \<le> length (bursts ! 0) \<and> length (bursts ! 0) \<le> 20 \<and>
     distinct (map (\<lambda>j. user_id (demo_users ! ([1, 0] ! j))) [0..<length bursts])"
proof -
  obtain txns where inj:
    "inject_velocity_spikes CITIES demo_users 1 [1, 0] demo_burst_draws demo_uuid2 = Inr txns"
    using inject_velocity_spikes_returns [of 1 CITIES demo_users "[1, 0]" demo_burst_draws demo_uuid2]
      CITIES_facts(1)
    by fastforce
  have p: "is_permutation (length demo_users) [1, 0]"
    using is_permutation_eval(3) by (simp only: demo_users_facts)
  have ids: "distinct (map user_id demo_users)"
    using generate_demo_users by (rule generated_ids_distinct)
  have "\<forall>j < nat (min 1 (int (length demo_users))). valid_burst_draw CITIES (demo_burst_draws j)"
    by (simp add: valid_demo_burst_draw)
  from C5_velocity_bursts [OF inj p this] obtain bursts where
    "txns = concat bursts" "length bursts = nat (min 1 (int (length demo_users)))"
    "distinct (map user_id demo_users) \<longrightarrow>
       distinct (map (\<lambda>j. user_id (demo_users ! ([1, 0] ! j))) [0..<length bursts])"
    "\<forall>j < length bursts. 10 \<le> length (bursts ! j) \<and> length (bursts ! j) \<le> 20"
    by blast
  with ids have "txns = concat bursts \<and> length bursts = 1 \<and>
     10 \<le> length (bursts ! 0) \<and> length (bursts ! 0) \<le> 20 \<and>
     distinct (map (\<lambda>j. user_id (demo_users ! ([1, 0] ! j))) [0..<length bursts])"
    by (simp add: demo_users_facts)
  with inj show ?thesis by blast
qed

text \<open>Witness for C7: the four streams of a small run.\<close>

theorem C7_amount_floor_and_fraud_tag_witness:
  "\<exists>legit impossible velocity drift.
     generate_legitimate_transactions MERCHANT_CATEGORIES demo_users 1 demo_legit_draws demo_uuid
       = Inr legit \<and>
     inject_impossible_travel CITIES DISTANT_PAIRS MERCHANT_CATEGORIES demo_users 1 first_row
       demo_travel_draws demo_uuid2 = Inr impossible \<and>
     inject_velocity_spikes CITIES demo_users 1 [1, 0] demo_burst_draws demo_uuid2 = Inr velocity \<and>
     inject_behavioral_drift demo_users 1 first_row demo_drift_draws demo_uuid = Inr drift \<and>
     length legit = 1 \<and> length drift = 1 \<and>
     0.01 \<le> amount (legit ! 0) \<and> \<not> is_fraud (legit ! 0) \<and> fraud_type (legit ! 0) = None \<and>
     0.01 \<le> amount (drift ! 0) \<and> is_fraud (drift ! 0) \<and>
     fraud_type (drift ! 0) \<in> recognized_archetypes"
proof -
  obtain legit where l:
    "generate_legitimate_transactions MERCHANT_CATEGORIES demo_users 1 demo_legit_draws demo_uuid
       = Inr legit"
    using generate_legitimate_transactions_returns
      [of MERCHANT_CATEGORIES 1 demo_legit_draws demo_users demo_uuid]
    by (auto simp: catalog_facts demo_users_facts demo_legit_draws_def)
  obtain impossible where i:
    "inject_impossible_travel CITIES DISTANT_PAIRS MERCHANT_CATEGORIES demo_users 1 first_row
       demo_travel_draws demo_uuid2 = Inr impossible"
    using inject_impossible_travel_returns
      [of 1 MERCHANT_CATEGORIES DISTANT_PAIRS CITIES demo_users demo_travel_draws first_row demo_uuid2]
    by (auto simp: catalog_facts demo_travel_draws_def)
  obtain velocity where v:
    "inject_velocity_spikes CITIES demo_users 1 [1, 0] demo_burst_draws demo_uuid2 = Inr velocity"
    using inject_velocity_spikes_returns [of 1 CITIES demo_users "[1, 0]" demo_burst_draws demo_uuid2]
      CITIES_facts(1)
    by fastforce
  obtain drift where d:
    "inject_behavioral_drift demo_users 1 first_row demo_drift_draws demo_uuid = Inr drift"
    using inject_behavioral_drift_returns [of 1 demo_users first_row demo_drift_draws demo_uuid]
    by fastforce
  have ll: "length legit = 1" using generate_legitimate_transactions_Inr(1) [OF l] by simp
  have ld: "length drift = 1" using inject_behavioral_drift_Inr(2) [OF d]
    by (simp add: demo_users_facts)
  have pv: "\<forall>i < nat (min 1 (int (length demo_users))).
      valid_travel_draw DISTANT_PAIRS MERCHANT_CATEGORIES (demo_travel_draws i)"
    by (simp add: valid_demo_travel_draw)
  have vv: "\<forall>j < nat (min 1 (int (length demo_users))). valid_burst_draw CITIES (demo_burst_draws j)"
    by (simp add: valid_demo_burst_draw)
  note all = C7_amount_floor_and_fraud_tag [OF l i pv v vv d]
  from ll have "legit ! 0 \<in> set (legit @ impossible @ velocity @ drift)" by (cases legit) auto
  with all have L: "0.01 \<le> amount (legit ! 0) \<and>
      (is_fraud (legit ! 0) \<longleftrightarrow> fraud_type (legit ! 0) \<in> recognized_archetypes) \<and>
      (\<not> is_fraud (legit ! 0) \<longrightarrow> fraud_type (legit ! 0) = None)" by blast
  from ld have "drift ! 0 \<in> set (legit @ impossible @ velocity @ drift)" by (cases drift) auto
  with all have D: "0.01 \<le> amount (drift ! 0) \<and>
      (is_fraud (drift ! 0) \<longleftrightarrow> fraud_type (drift ! 0) \<in> recognized_archetypes) \<and>
      (\<not> is_fraud (drift ! 0) \<longrightarrow> fraud_type (drift ! 0) = None)" by blast
  have nf: "\<not> is_fraud (legit ! 0)"
    using legit_row_Inr(6) [OF generate_legitimate_transactions_Inr(2) [OF l, of 0]] by simp
  have f: "is_fraud (drift ! 0)"
    using drift_row_Inr(4) [OF inject_behavioral_drift_Inr(3) [OF d, of 0]] ld by simp
  from l i v d ll ld L D nf f show ?thesis by blast
qed

section \<open>Witnesses on whole runs\<close>

lemma upt_eval: "[0..<1] = [0]" "[0..<2] = [0, 1]" "[0..<Suc 0] = [0]"
  by (simp_all add: upt_rec)

lemma valid_one_user_legit_draw: "valid_legit_draw MERCHANT_CATEGORIES 1 (one_user_legit_draws i)"
  by (simp add: valid_legit_draw_def one_user_legit_draws_def in_sample_def in_uniform_def
      in_randint_def in_choice_def catalog_facts start_end_dates)

lemma demo_config_fields:
  "cities demo_config = CITIES" "distant_pairs demo_config = DISTANT_PAIRS"
  "merchant_categories demo_config = MERCHANT_CATEGORIES"
  "num_users demo_config = 2" "num_transactions demo_config = 1"
  "fraud_impossible_travel demo_config = 1" "fraud_velocity_spike_users demo_config = 1"
  "fraud_behavioral_drift demo_config = 1"
  by (simp_all add: demo_config_def)

lemma one_user_config_fields:
  "cities one_user_config = CITIES" "distant_pairs one_user_config = DISTANT_PAIRS"
  "merchant_categories one_user_config = MERCHANT_CATEGORIES"
  "num_users one_user_config = 1" "num_transactions one_user_config = 1"
  "fraud_impossible_travel one_user_config = 2" "fraud_velocity_spike_users one_user_config = 1"
  "fraud_behavioral_drift one_user_config = 1"
  by (simp_all add: one_user_config_def)


lemma demo_draws_fields:
  "dr_profiles demo_draws = demo_profile_draws" "dr_legit demo_draws = demo_legit_draws"
  "dr_travel_sample demo_draws = first_row" "dr_travel demo_draws = demo_travel_draws"
  "dr_velocity_sample demo_draws = [1, 0]" "dr_velocity demo_draws = demo_burst_draws"
  "dr_drift_sample demo_draws = first_row" "dr_drift demo_draws = demo_drift_draws"
  "dr_shuffle demo_draws = rev [0..<14]"
  by (simp_all add: demo_draws_def)

lemma one_user_draws_fields:
  "dr_profiles one_user_draws = demo_profile_draws" "dr_legit one_user_draws = one_user_legit_draws"
  "dr_travel_sample one_user_draws = first_row" "dr_travel one_user_draws = demo_travel_draws"
  "dr_velocity_sample one_user_draws = [0]" "dr_velocity one_user_draws = demo_burst_draws"
  "dr_drift_sample one_user_draws = first_row" "dr_drift one_user_draws = demo_drift_draws"
  "dr_shuffle one_user_draws = rev [0..<14]"
  by (simp_all add: one_user_draws_def)


lemma demo_counts:
  "n_population demo_config = 2" "n_trials demo_config = 1" "n_bursts demo_config = 1"
  "n_drifts demo_config = 1" "burst_sizes demo_config demo_draws = 10"
  "total_records demo_config demo_draws = 14"
  by (simp_all add: n_population_def n_trials_def n_bursts_def n_drifts_def burst_sizes_def
      total_records_def demo_config_fields demo_draws_fields demo_burst_draws_def upt_eval)

lemma one_user_counts:
  "n_population one_user_config = 1" "n_trials one_user_config = 1" "n_bursts one_user_config = 1"
  "n_drifts one_user_config = 1" "burst_sizes one_user_config one_user_draws = 10"
  "total_records one_user_config one_user_draws = 14"
  by (simp_all add: n_population_def n_trials_def n_bursts_def n_drifts_def burst_sizes_def
      total_records_def one_user_config_fields one_user_draws_fields demo_burst_draws_def upt_eval)


lemma is_permutation_eval_Suc: "is_permutation 2 [Suc 0, 0]" "is_permutation (Suc 0) [0]"
  by (simp_all add: is_permutation_def upt_rec)

lemma valid_one_user_legit_draw_Suc:
  "valid_legit_draw MERCHANT_CATEGORIES (Suc 0) (one_user_legit_draws i)"
  using valid_one_user_legit_draw [of i] by simp

lemma is_permutation_rev: "is_permutation n (rev [0..<n])"
  by (simp add: is_permutation_def)

lemma valid_demo_config: "valid_config demo_config"
  using catalog_facts(6)
  by (simp add: valid_config_def demo_config_fields catalog_facts CITIES_facts list_all_iff)

lemma valid_one_user_config: "valid_config one_user_config"
  using catalog_facts(6)
  by (simp add: valid_config_def one_user_config_fields catalog_facts CITIES_facts list_all_iff)

lemma valid_demo_draws: "valid_draws demo_config demo_draws"
  unfolding valid_draws_def demo_counts list_all_upt
  by (simp add: demo_config_fields demo_draws_fields valid_demo_profile_draw valid_demo_legit_draw
      valid_demo_travel_draw valid_demo_burst_draw valid_demo_drift_draw in_sample_def
      first_row_def is_permutation_eval is_permutation_eval_Suc is_permutation_rev)

lemma valid_one_user_draws: "valid_draws one_user_config one_user_draws"
  unfolding valid_draws_def one_user_counts list_all_upt
  by (simp add: one_user_config_fields one_user_draws_fields valid_demo_profile_draw
      valid_one_user_legit_draw valid_one_user_legit_draw_Suc valid_demo_travel_draw valid_demo_burst_draw
      valid_demo_drift_draw in_sample_def first_row_def is_permutation_eval is_permutation_eval_Suc is_permutation_rev)


lemma main_with_length:
  assumes cities: "cities cfg \<noteq> []" and cats: "merchant_categories cfg \<noteq> []"
    and pairs: "\<forall>p \<in> set (distant_pairs cfg).
                  fst p < length (cities cfg) \<and> snd p < length (cities cfg)"
    and counts: "0 \<le> fraud_impossible_travel cfg" "0 \<le> fraud_velocity_spike_users cfg"
      "0 \<le> fraud_behavioral_drift cfg"
    and valid: "valid_draws cfg dr"
    and some: "0 < total_records cfg dr"
  shows "map_sum id length (main_with cfg dr uu) = Inr (total_records cfg dr)"
proof -
  from main_with_returns [OF assms] obtain users legit impossible velocity drift where
    "generate_streams cfg dr uu = Inr (users, legit, impossible, velocity, drift)"
    and out: "main_with cfg dr uu
      = Inr (sort_values (shuffle (legit @ impossible @ velocity @ drift) (dr_shuffle dr)))"
    by blast
  have "length (sort_values (shuffle (legit @ impossible @ velocity @ drift) (dr_shuffle dr)))
      = length (dr_shuffle dr)"
    by (simp add: length_sort_values shuffle_length)
  also have "\<dots> = total_records cfg dr"
    using is_permutation_props(1) [OF valid_draws_unfold(7) [OF valid]] .
  finally show ?thesis using out by simp
qed

text \<open>Witness for C3: the small run under two supplies of identifiers.\<close>

theorem C3_same_draws_same_output_witness:
  "map_sum id (map erase_id) (main_with demo_config demo_draws demo_uuids)
     = map_sum id (map erase_id) (main_with demo_config demo_draws other_uuids) \<and>
   map_sum id length (main_with demo_config demo_draws demo_uuids) = Inr 14"
proof -
  have v: "is_permutation (n_population demo_config) (dr_velocity_sample demo_draws)"
    using valid_draws_unfold(4) [OF valid_demo_draws] .
  have s: "is_permutation (total_records demo_config demo_draws) (dr_shuffle demo_draws)"
    using valid_draws_unfold(7) [OF valid_demo_draws] .
  have "map_sum id length (main_with demo_config demo_draws demo_uuids)
      = Inr (total_records demo_config demo_draws)"
    using catalog_facts(6)
    by (intro main_with_length valid_demo_draws)
       (simp_all add: demo_config_fields CITIES_facts catalog_facts demo_counts)
  with C3_same_draws_same_output [OF v s, of demo_uuids other_uuids] show ?thesis
    by (simp add: demo_counts)
qed

text \<open>Witness for C4: the small run has 14 records.\<close>

theorem C4_total_record_count_witness:
  "(\<exists>out. main_with demo_config demo_draws demo_uuids = Inr out \<and> length out = 14) \<and>
   n_trials demo_config = nat (fraud_impossible_travel demo_config) \<and>
   n_bursts demo_config = nat (fraud_velocity_spike_users demo_config) \<and>
   n_drifts demo_config = nat (fraud_behavioral_drift demo_config)"
proof -
  from C4_total_record_count [OF valid_demo_config valid_demo_draws, of demo_uuids]
  obtain out where "main_with demo_config demo_draws demo_uuids = Inr out"
    "length out = nat (num_transactions demo_config) + 2 * n_trials demo_config
        + burst_sizes demo_config demo_draws + n_drifts demo_config"
    "fraud_impossible_travel demo_config \<le> num_users demo_config \<longrightarrow>
       n_trials demo_config = nat (fraud_impossible_travel demo_config)"
    "fraud_velocity_spike_users demo_config \<le> num_users demo_config \<longrightarrow>
       n_bursts demo_config = nat (fraud_velocity_spike_users demo_config)"
    "fraud_behavioral_drift demo_config \<le> num_users demo_config \<longrightarrow>
       n_drifts demo_config = nat (fraud_behavioral_drift demo_config)"
    by blast
  then show ?thesis by (auto simp: demo_counts demo_config_fields)
qed

text \<open>Counterexample to C4 as stated: with one user and two pairs asked for, the run has 14
  records, where the claimed sum is 16.\<close>

theorem C4_pairs_capped_by_population_counterexample:
  "valid_config one_user_config \<and> valid_draws one_user_config one_user_draws \<and>
   map_sum id length (main_with one_user_config one_user_draws demo_uuids) = Inr 14 \<and>
   nat (num_transactions one_user_config) + 2 * nat (fraud_impossible_travel one_user_config)
     + burst_sizes one_user_config one_user_draws + nat (fraud_behavioral_drift one_user_config)
     = 16"
proof (intro conjI)
  show "valid_config one_user_config" by (rule valid_one_user_config)
  show "valid_draws one_user_config one_user_draws" by (rule valid_one_user_draws)
  have "map_sum id length (main_with one_user_config one_user_draws demo_uuids)
      = Inr (total_records one_user_config one_user_draws)"
    using catalog_facts(6)
    by (intro main_with_length valid_one_user_draws)
       (simp_all add: one_user_config_fields CITIES_facts catalog_facts one_user_counts)
  then show "map_sum id length (main_with one_user_config one_user_draws demo_uuids) = Inr 14"
    by (simp add: one_user_counts)
  show "nat (num_transactions one_user_config) + 2 * nat (fraud_impossible_travel one_user_config)
     + burst_sizes one_user_config one_user_draws + nat (fraud_behavioral_drift one_user_config)
     = 16"
    by (simp add: one_user_counts one_user_config_fields)
qed









end
